theory Spec2Isabelle
  imports Main "HOL-Library.Word" "HOL-Library.Product_Lexorder"
begin

section \<open>Data model\<close>

text \<open>
  A \<open>boost::asio::ip::tcp::endpoint\<close> is an address and a port, ordered first by
  address and then by port; the ordering is what \<open>std::map\<close> iterates by.
\<close>

type_synonym endpoint = "nat \<times> nat"

type_synonym uuid = "128 word"

text \<open>
  A \<open>tcp_connection::pointer\<close> is a shared pointer: \<open>None\<close> is the null pointer,
  \<open>Some c\<close> the connection with handle \<open>c\<close>.
\<close>

type_synonym tcp_connection_pointer = "nat option"

text \<open>
  Modelled from the spec: \<open>remote_server::state\<close> (quorum.hpp is absent). The source
  names \<open>state_dead\<close> and \<open>state_leader\<close>; the spec lists the liveness states as
  unknown, leader, follower and dead.
\<close>

datatype server_state = state_unknown | state_leader | state_follower | state_dead

text \<open>
  Modelled from the spec: the command types (command.hpp is absent). These are the
  types that basic_paxos.cpp and handshake.cpp name.
\<close>

datatype command_type =
    type_handshake_start
  | type_handshake_response
  | type_request_prepare
  | type_request_promise
  | type_request_fail
  | type_request_accept
  | type_request_accepted

text \<open>
  Modelled from the spec: the command record (command.hpp is absent). The fields are
  the ones the source reads and writes through \<open>type ()\<close>, \<open>proposal_id ()\<close>,
  \<open>workload ()\<close>, \<open>host_id ()\<close>, \<open>host_endpoint ()\<close> and \<open>host_state ()\<close>;
  the proposal id is a 64-bit unsigned integer.
\<close>

record command =
  type :: command_type
  proposal_id :: "64 word"
  workload :: string
  host_id :: uuid
  host_endpoint :: endpoint
  host_state :: server_state

text \<open>
  Modelled from the spec: a freshly constructed command on which only \<open>set_type\<close> has
  been called (command.hpp is absent); every other field is zero or empty.
\<close>

definition new_command :: "command_type \<Rightarrow> command" where
  "new_command t =
     \<lparr>type = t, proposal_id = 0, workload = [], host_id = 0,
      host_endpoint = (0, 0), host_state = state_unknown\<rparr>"

text \<open>
  Modelled from the spec: the peer record \<open>remote_server\<close> (quorum.hpp is absent):
  liveness state, identity and an optional cached connection, behind the accessors
  \<open>state ()\<close>, \<open>connection ()\<close>, \<open>has_connection ()\<close>, \<open>set_state\<close>, \<open>set_id\<close>
  and \<open>set_connection\<close>.
\<close>

record remote_server =
  rs_state :: server_state
  rs_id :: uuid
  rs_connection :: tcp_connection_pointer

definition set_state :: "server_state \<Rightarrow> remote_server \<Rightarrow> remote_server" where
  "set_state s r = r\<lparr>rs_state := s\<rparr>"

definition set_id :: "uuid \<Rightarrow> remote_server \<Rightarrow> remote_server" where
  "set_id i r = r\<lparr>rs_id := i\<rparr>"

definition set_connection :: "tcp_connection_pointer \<Rightarrow> remote_server \<Rightarrow> remote_server" where
  "set_connection c r = r\<lparr>rs_connection := c\<rparr>"

definition has_connection :: "remote_server \<Rightarrow> bool" where
  "has_connection r = (rs_connection r \<noteq> None)"

text \<open>
  The local node record. The source reads its members as \<open>self ().endpoint_\<close>,
  \<open>self ().id_\<close> and \<open>self ().state_\<close>; an identifier cannot end in an underscore
  here, so the fields are \<open>self_endpoint\<close>, \<open>self_id\<close> and \<open>self_state\<close>.
\<close>

record self_server =
  self_endpoint :: endpoint
  self_id :: uuid
  self_state :: server_state

text \<open>
  A \<open>std::map\<close> is an association list kept in key order. \<open>map_set\<close> is the
  assignment \<open>m[k] = v\<close>, \<open>map_of\<close> is \<open>find\<close> and \<open>length\<close> is \<open>size ()\<close>.
\<close>

fun map_set :: "('k::linorder \<times> 'v) list \<Rightarrow> 'k \<Rightarrow> 'v \<Rightarrow> ('k \<times> 'v) list" where
  "map_set [] k v = [(k, v)]"
| "map_set (p # m) k v =
     (if k = fst p then (k, v) # m
      else if k < fst p then (k, v) # p # m
      else p # map_set m k v)"

record quorum =
  self :: self_server
  servers :: "(endpoint \<times> remote_server) list"

text \<open>The ack of a peer in a round: \<open>response_none\<close> until the peer replies.\<close>

datatype response = response_none | response_ack | response_reject

text \<open>The per-request \<open>struct state\<close> shared by the callbacks of one round.\<close>

record state =
  accepted :: "(endpoint \<times> response) list"
  responses :: "(endpoint \<times> string) list"

text \<open>
  The part of a node the two engines work on: the quorum held by the protocol object
  (\<open>quorum_\<close> in the source) and the proposal counter of \<open>basic_paxos\<close>
  (\<open>proposal_id_\<close> in the source). Modelled from the spec: the counter is a 64-bit
  unsigned integer (basic_paxos.hpp is absent), so \<open>++\<close> wraps around.
\<close>

record node =
  m_quorum :: quorum
  m_proposal_id :: "64 word"

subsection \<open>Effects\<close>

text \<open>
  A handler runs to completion and leaves behind commands written to connections and
  continuations registered for the next command read from a connection. The
  continuations are the \<open>boost::bind\<close> closures of the source, with their bound
  arguments.
\<close>

datatype callback =
    Receive_promise tcp_connection_pointer endpoint tcp_connection_pointer string
  | Receive_accepted tcp_connection_pointer endpoint
  | Step4 endpoint tcp_connection_pointer

datatype action =
    Write_command command tcp_connection_pointer
  | Read_command tcp_connection_pointer callback
  | Process_workload string
  | Async_connect endpoint
  | Start_timeout tcp_connection_pointer

datatype error = Assertion_failed | Unreachable

text \<open>
  Modelled from the spec: \<open>PAXOS_ASSERT\<close> (util/debug.hpp is absent). A failed
  assertion halts the process: nothing after it runs.
\<close>

definition PAXOS_ASSERT :: "bool \<Rightarrow> (error + 'a) \<Rightarrow> error + 'a" where
  "PAXOS_ASSERT b k = (if b then k else Inl Assertion_failed)"

text \<open>Modelled from the spec: \<open>PAXOS_UNREACHABLE\<close> (util/debug.hpp is absent) halts too.\<close>

definition PAXOS_UNREACHABLE :: "error + 'a" where
  "PAXOS_UNREACHABLE = Inl Unreachable"

section \<open>Quorum registry\<close>

text \<open>
  Modelled from the spec: \<open>quorum::we_are_the_leader\<close> (quorum.cpp is absent) is true
  iff this node's self-state is leader.
\<close>

definition we_are_the_leader :: "quorum \<Rightarrow> bool" where
  "we_are_the_leader q = (self_state (self q) = state_leader)"

text \<open>Modelled from the spec: \<open>quorum::adjust_our_state\<close> (quorum.cpp is absent).\<close>

definition adjust_our_state :: "server_state \<Rightarrow> quorum \<Rightarrow> quorum" where
  "adjust_our_state s q = q\<lparr>self := (self q)\<lparr>self_state := s\<rparr>\<rparr>"

text \<open>
  Modelled from the spec: \<open>quorum::lookup\<close> (quorum.cpp is absent) returns the peer
  record of an endpoint. The quorum is fixed at startup, so the record is expected to
  exist; an endpoint without a record halts the process.
\<close>

definition lookup :: "quorum \<Rightarrow> endpoint \<Rightarrow> error + remote_server" where
  "lookup q e = (case map_of (servers q) e of None \<Rightarrow> Inl Assertion_failed | Some r \<Rightarrow> Inr r)"

text \<open>A setter called on the reference that \<open>lookup\<close> returns.\<close>

definition lookup_modify ::
  "quorum \<Rightarrow> endpoint \<Rightarrow> (remote_server \<Rightarrow> remote_server) \<Rightarrow> error + quorum" where
  "lookup_modify q e f =
     (case lookup q e of
        Inl x \<Rightarrow> Inl x
      | Inr r \<Rightarrow> Inr (q\<lparr>servers := map_set (servers q) e (f r)\<rparr>))"

section \<open>Replication engine (basic_paxos.cpp)\<close>

text \<open>The constructor: the counter starts at 0.\<close>

definition basic_paxos :: "quorum \<Rightarrow> node" where
  "basic_paxos q = \<lparr>m_quorum = q, m_proposal_id = 0\<rparr>"

definition send_prepare ::
  "node \<Rightarrow> tcp_connection_pointer \<Rightarrow> endpoint \<Rightarrow> tcp_connection_pointer \<Rightarrow> string \<Rightarrow> state
   \<Rightarrow> error + (state \<times> action list)" where
  "send_prepare n client_connection server_endpoint server_connection byte_array st =
     PAXOS_ASSERT (map_of (accepted st) server_endpoint = None)
       (Inr (st\<lparr>accepted := map_set (accepted st) server_endpoint response_none\<rparr>,
             [Write_command ((new_command type_request_prepare)\<lparr>proposal_id := m_proposal_id n\<rparr>)
                server_connection,
              Read_command server_connection
                (Receive_promise client_connection server_endpoint server_connection byte_array)]))"

text \<open>The loop of \<open>start\<close> over \<open>quorum ().servers ()\<close>; dead peers are skipped.\<close>

fun start_loop ::
  "node \<Rightarrow> tcp_connection_pointer \<Rightarrow> string \<Rightarrow> (endpoint \<times> remote_server) list \<Rightarrow> state
   \<Rightarrow> error + (state \<times> action list)" where
  "start_loop n client_connection w [] st = Inr (st, [])"
| "start_loop n client_connection w (i # rest) st =
     (case rs_state (snd i) of
        state_dead \<Rightarrow> start_loop n client_connection w rest st
      | _ \<Rightarrow>
          (case send_prepare n client_connection (fst i) (rs_connection (snd i)) w st of
             Inl x \<Rightarrow> Inl x
           | Inr (st1, acts1) \<Rightarrow>
               (case start_loop n client_connection w rest st1 of
                  Inl x \<Rightarrow> Inl x
                | Inr (st2, acts2) \<Rightarrow> Inr (st2, acts1 @ acts2))))"

definition start ::
  "node \<Rightarrow> tcp_connection_pointer \<Rightarrow> command \<Rightarrow> error + (node \<times> state \<times> action list)" where
  "start n client_connection cmd =
     PAXOS_ASSERT (we_are_the_leader (m_quorum n) = True)
       (let n1 = n\<lparr>m_proposal_id := m_proposal_id n + 1\<rparr> in
        case start_loop n1 client_connection (workload cmd) (servers (m_quorum n1))
               \<lparr>accepted = [], responses = []\<rparr> of
          Inl x \<Rightarrow> Inl x
        | Inr (st, acts) \<Rightarrow> Inr (n1, st, acts))"

definition receive_prepare ::
  "node \<Rightarrow> tcp_connection_pointer \<Rightarrow> command \<Rightarrow> error + (node \<times> action list)" where
  "receive_prepare n connection cmd =
     PAXOS_ASSERT (we_are_the_leader (m_quorum n) = False)
       (if proposal_id cmd > m_proposal_id n
        then Inr (n\<lparr>m_proposal_id := proposal_id cmd\<rparr>,
                  [Write_command (new_command type_request_promise) connection])
        else Inr (n, [Write_command (new_command type_request_fail) connection]))"

text \<open>The loop that computes \<open>everyone_promised\<close> over \<open>state->accepted\<close>.\<close>

definition everyone_promised :: "(endpoint \<times> response) list \<Rightarrow> bool" where
  "everyone_promised m = foldl (\<lambda>b i. b \<and> snd i = response_ack) True m"

text \<open>
  \<open>state->accepted[server_endpoint]\<close> in the assertion reads the entry; the loop
  that calls \<open>send_accept\<close> passes keys of the map only. For a key without an entry
  \<open>operator[]\<close> would insert a value-initialised response, which is taken not to be
  \<open>response_ack\<close> (the enum is declared in the absent basic_paxos.hpp).
\<close>

definition send_accept ::
  "tcp_connection_pointer \<Rightarrow> endpoint \<Rightarrow> tcp_connection_pointer \<Rightarrow> string \<Rightarrow> state
   \<Rightarrow> error + action list" where
  "send_accept client_connection server_endpoint server_connection byte_array st =
     PAXOS_ASSERT (map_of (accepted st) server_endpoint = Some response_ack)
       (Inr [Write_command ((new_command type_request_accept)\<lparr>workload := byte_array\<rparr>)
               server_connection,
             Read_command server_connection
               (Receive_accepted client_connection server_endpoint)])"

text \<open>
  The user-supplied workload handler behind \<open>protocol::process_workload\<close> is a
  parameter \<open>h\<close>; each call is logged as \<open>Process_workload\<close> with its argument.
\<close>

definition receive_accept ::
  "(string \<Rightarrow> string) \<Rightarrow> tcp_connection_pointer \<Rightarrow> command \<Rightarrow> action list" where
  "receive_accept h connection input_command =
     [Process_workload (workload input_command),
      Write_command ((new_command type_request_accepted)\<lparr>workload := h (workload input_command)\<rparr>)
        connection]"

definition receive_accepted ::
  "tcp_connection_pointer \<Rightarrow> endpoint \<Rightarrow> command \<Rightarrow> state \<Rightarrow> error + (state \<times> action list)" where
  "receive_accepted client_connection server_endpoint cmd st =
     PAXOS_ASSERT (map_of (responses st) server_endpoint = None)
       (let st1 = st\<lparr>responses := map_set (responses st) server_endpoint (workload cmd)\<rparr> in
        Inr (st1,
             if length (responses st1) = length (accepted st1)
             then [Write_command cmd client_connection]
             else []))"

text \<open>The loop of \<open>receive_promise\<close> that calls \<open>send_accept\<close> for every entry.\<close>

fun send_accept_loop ::
  "node \<Rightarrow> tcp_connection_pointer \<Rightarrow> string \<Rightarrow> (endpoint \<times> response) list \<Rightarrow> state
   \<Rightarrow> error + action list" where
  "send_accept_loop n client_connection byte_array [] st = Inr []"
| "send_accept_loop n client_connection byte_array (i # rest) st =
     (case lookup (m_quorum n) (fst i) of
        Inl x \<Rightarrow> Inl x
      | Inr r \<Rightarrow>
          (case send_accept client_connection (fst i) (rs_connection r) byte_array st of
             Inl x \<Rightarrow> Inl x
           | Inr acts1 \<Rightarrow>
               (case send_accept_loop n client_connection byte_array rest st of
                  Inl x \<Rightarrow> Inl x
                | Inr acts2 \<Rightarrow> Inr (acts1 @ acts2))))"

text \<open>The switch of \<open>receive_promise\<close> on the type of the reply.\<close>

definition promise_response :: "command \<Rightarrow> error + response" where
  "promise_response cmd =
     (case type cmd of
        type_request_promise \<Rightarrow> Inr response_ack
      | type_request_fail \<Rightarrow> Inr response_reject
      | _ \<Rightarrow> PAXOS_UNREACHABLE)"

definition receive_promise ::
  "(string \<Rightarrow> string) \<Rightarrow> node \<Rightarrow> tcp_connection_pointer \<Rightarrow> endpoint \<Rightarrow> tcp_connection_pointer
   \<Rightarrow> string \<Rightarrow> command \<Rightarrow> state \<Rightarrow> error + (state \<times> action list)" where
  "receive_promise h n client_connection server_endpoint server_connection byte_array cmd st =
     PAXOS_ASSERT (we_are_the_leader (m_quorum n) = True)
       (case promise_response cmd of
          Inl x \<Rightarrow> Inl x
        | Inr r \<Rightarrow>
            (let st1 = st\<lparr>accepted := map_set (accepted st) server_endpoint r\<rparr> in
             if everyone_promised (accepted st1) = True
             then
               (case send_accept_loop n client_connection byte_array (accepted st1) st1 of
                  Inl x \<Rightarrow> Inl x
                | Inr acts1 \<Rightarrow>
                    (let tmp_command =
                           (new_command type_request_accepted)\<lparr>workload := h (workload cmd)\<rparr>;
                         st2 = st1\<lparr>accepted :=
                                 map_set (accepted st1) (self_endpoint (self (m_quorum n)))
                                   response_ack\<rparr>
                     in case receive_accepted client_connection
                               (self_endpoint (self (m_quorum n))) tmp_command st2 of
                          Inl x \<Rightarrow> Inl x
                        | Inr (st3, acts2) \<Rightarrow>
                            Inr (st3, acts1 @ [Process_workload (workload cmd)] @ acts2)))
             else Inr (st1, [])))"

section \<open>Handshake engine (handshake.cpp)\<close>

text \<open>
  \<open>step1\<close> dials every configured peer; the connection it creates for a peer is the
  one \<open>step2\<close> is later called with.
\<close>

definition step1 :: "quorum \<Rightarrow> quorum \<times> action list" where
  "step1 q =
     (let q1 = (if servers q = [] then adjust_our_state state_leader q else q)
      in (q1, map (\<lambda>i. Async_connect (fst i)) (servers q1)))"

definition step2 ::
  "quorum \<Rightarrow> endpoint \<Rightarrow> tcp_connection_pointer \<Rightarrow> bool \<Rightarrow> error + (quorum \<times> action list)" where
  "step2 q endpoint connection err =
     (if err
      then (case lookup_modify q endpoint (set_state state_dead) of
              Inl x \<Rightarrow> Inl x
            | Inr q1 \<Rightarrow> Inr (q1, []))
      else Inr (q, [Write_command (new_command type_handshake_start) connection,
                    Start_timeout connection,
                    Read_command connection (Step4 endpoint connection)]))"

definition step3 :: "quorum \<Rightarrow> tcp_connection_pointer \<Rightarrow> command \<Rightarrow> action list" where
  "step3 q connection cmd =
     [Write_command
        ((new_command type_handshake_response)
           \<lparr>host_id := self_id (self q),
            host_endpoint := self_endpoint (self q),
            host_state := self_state (self q)\<rparr>)
        connection]"

definition step4 ::
  "quorum \<Rightarrow> endpoint \<Rightarrow> tcp_connection_pointer \<Rightarrow> command \<Rightarrow> error + quorum" where
  "step4 q endpoint connection cmd =
     PAXOS_ASSERT (host_endpoint cmd = endpoint)
       (case lookup_modify q endpoint (set_state (host_state cmd)) of
          Inl x \<Rightarrow> Inl x
        | Inr q1 \<Rightarrow>
            (case lookup_modify q1 endpoint (set_id (host_id cmd)) of
               Inl x \<Rightarrow> Inl x
             | Inr q2 \<Rightarrow>
                 (case lookup q2 endpoint of
                    Inl x \<Rightarrow> Inl x
                  | Inr r \<Rightarrow>
                      if has_connection r = False
                      then lookup_modify q2 endpoint (set_connection connection)
                      else Inr q2)))"

text \<open>The two entry points: \<open>handshake::start\<close> and \<open>receive_handshake_start\<close>.\<close>

definition handshake_start :: "quorum \<Rightarrow> quorum \<times> action list" where
  "handshake_start q = step1 q"

definition receive_handshake_start ::
  "quorum \<Rightarrow> tcp_connection_pointer \<Rightarrow> command \<Rightarrow> action list" where
  "receive_handshake_start q connection cmd = step3 q connection cmd"

text \<open>
  One run of the handshake procedure of a node with quorum \<open>q\<close> against a live peer
  at endpoint \<open>e\<close>: the connection \<open>c\<close> that \<open>step1\<close> created is established,
  \<open>step2\<close> writes the handshake start, the peer (with quorum \<open>peer\<close>) answers through
  \<open>step3\<close>, and \<open>step4\<close> is called with the command the peer wrote.
\<close>

definition handshake_once :: "quorum \<Rightarrow> quorum \<Rightarrow> endpoint \<Rightarrow> nat \<Rightarrow> error + quorum" where
  "handshake_once q peer e c =
     (case step2 q e (Some c) False of
        Inl x \<Rightarrow> Inl x
      | Inr (q1, acts) \<Rightarrow>
          (case step3 peer (Some c) (new_command type_handshake_start) of
             [Write_command ret connection] \<Rightarrow> step4 q1 e (Some c) ret
           | _ \<Rightarrow> Inr q1))"

section \<open>Runs of a node\<close>

text \<open>
  The operations a node performs, each with the arguments the source function takes;
  a continuation carries the round state it was bound to.
  Modelled from the spec: \<open>Op_adjust_our_state\<close> is the outcome of leader election
  (elect_leader.cpp is absent), which sets the self-state to leader or follower.
\<close>

datatype operation =
    Op_start tcp_connection_pointer command
  | Op_receive_prepare tcp_connection_pointer command
  | Op_receive_promise tcp_connection_pointer endpoint tcp_connection_pointer string command state
  | Op_receive_accept tcp_connection_pointer command
  | Op_receive_accepted tcp_connection_pointer endpoint command state
  | Op_step1
  | Op_step2 endpoint tcp_connection_pointer bool
  | Op_step3 tcp_connection_pointer command
  | Op_step4 endpoint tcp_connection_pointer command
  | Op_adjust_our_state server_state

fun perform :: "(string \<Rightarrow> string) \<Rightarrow> operation \<Rightarrow> node \<Rightarrow> error + node" where
  "perform h (Op_start client_connection cmd) n =
     (case start n client_connection cmd of Inl x \<Rightarrow> Inl x | Inr (n1, st, acts) \<Rightarrow> Inr n1)"
| "perform h (Op_receive_prepare connection cmd) n =
     (case receive_prepare n connection cmd of Inl x \<Rightarrow> Inl x | Inr (n1, acts) \<Rightarrow> Inr n1)"
| "perform h (Op_receive_promise client_connection e server_connection byte_array cmd st) n =
     (case receive_promise h n client_connection e server_connection byte_array cmd st of
        Inl x \<Rightarrow> Inl x
      | Inr (st1, acts) \<Rightarrow> Inr n)"
| "perform h (Op_receive_accept connection cmd) n = Inr n"
| "perform h (Op_receive_accepted client_connection e cmd st) n =
     (case receive_accepted client_connection e cmd st of
        Inl x \<Rightarrow> Inl x
      | Inr (st1, acts) \<Rightarrow> Inr n)"
| "perform h Op_step1 n = Inr (n\<lparr>m_quorum := fst (step1 (m_quorum n))\<rparr>)"
| "perform h (Op_step2 e connection err) n =
     (case step2 (m_quorum n) e connection err of
        Inl x \<Rightarrow> Inl x
      | Inr (q1, acts) \<Rightarrow> Inr (n\<lparr>m_quorum := q1\<rparr>))"
| "perform h (Op_step3 connection cmd) n = Inr n"
| "perform h (Op_step4 e connection cmd) n =
     (case step4 (m_quorum n) e connection cmd of
        Inl x \<Rightarrow> Inl x
      | Inr q1 \<Rightarrow> Inr (n\<lparr>m_quorum := q1\<rparr>))"
| "perform h (Op_adjust_our_state s) n = Inr (n\<lparr>m_quorum := adjust_our_state s (m_quorum n)\<rparr>)"

text \<open>
  The run of a list of operations: for every operation performed, the node before,
  the operation and the node after. A failed assertion halts the process, so the run
  ends there.
\<close>

fun history ::
  "(string \<Rightarrow> string) \<Rightarrow> operation list \<Rightarrow> node \<Rightarrow> (node \<times> operation \<times> node) list" where
  "history h [] n = []"
| "history h (opn # rest) n =
     (case perform h opn n of
        Inl x \<Rightarrow> []
      | Inr n1 \<Rightarrow> (n, opn, n1) # history h rest n1)"

fun is_start :: "operation \<Rightarrow> bool" where
  "is_start (Op_start client_connection cmd) = True"
| "is_start opn = False"

text \<open>The value of the proposal counter at the beginning and after every operation of a run.\<close>

definition counters :: "(string \<Rightarrow> string) \<Rightarrow> operation list \<Rightarrow> node \<Rightarrow> 64 word list" where
  "counters h ops n = m_proposal_id n # map (\<lambda>t. m_proposal_id (snd (snd t))) (history h ops n)"

text \<open>
  The proposal ids of the client requests of a run, in order: the value \<open>start\<close>
  leaves in the counter, which is the one its prepare commands carry.
\<close>

definition request_ids :: "(string \<Rightarrow> string) \<Rightarrow> operation list \<Rightarrow> node \<Rightarrow> 64 word list" where
  "request_ids h ops n =
     map (\<lambda>t. m_proposal_id (snd (snd t))) (filter (\<lambda>t. is_start (fst (snd t))) (history h ops n))"

text \<open>No \<open>start\<close> of the run finds the counter at its largest value.\<close>

definition no_wrap :: "(string \<Rightarrow> string) \<Rightarrow> operation list \<Rightarrow> node \<Rightarrow> bool" where
  "no_wrap h ops n =
     list_all (\<lambda>t. is_start (fst (snd t)) \<longrightarrow> m_proposal_id (fst t) \<noteq> - 1) (history h ops n)"

section \<open>Leader rounds\<close>

text \<open>The continuations a handler registered.\<close>

fun callbacks :: "action list \<Rightarrow> callback list" where
  "callbacks [] = []"
| "callbacks (Read_command connection cb # acts) = cb # callbacks acts"
| "callbacks (a # acts) = callbacks acts"

text \<open>
  The configurations of one leader round: the round state and the continuations
  still waiting for a reply. A round begins with \<open>start\<close>; each step takes one
  waiting continuation and calls it with the command read from its connection. The
  quorum view \<open>n\<close> of the node may have changed between two steps.
\<close>

inductive round_reachable :: "(string \<Rightarrow> string) \<Rightarrow> state \<Rightarrow> callback list \<Rightarrow> bool"
  for h :: "string \<Rightarrow> string" where
  started:
    "start n client_connection cmd = Inr (n1, st, acts)
     \<Longrightarrow> round_reachable h st (callbacks acts)"
| promise:
    "round_reachable h st pending
     \<Longrightarrow> Receive_promise client_connection e server_connection byte_array \<in> set pending
     \<Longrightarrow> receive_promise h n client_connection e server_connection byte_array cmd st
           = Inr (st1, acts)
     \<Longrightarrow> round_reachable h st1
           (remove1 (Receive_promise client_connection e server_connection byte_array) pending
            @ callbacks acts)"
| accepted:
    "round_reachable h st pending
     \<Longrightarrow> Receive_accepted client_connection e \<in> set pending
     \<Longrightarrow> receive_accepted client_connection e cmd st = Inr (st1, acts)
     \<Longrightarrow> round_reachable h st1
           (remove1 (Receive_accepted client_connection e) pending @ callbacks acts)"

text \<open>The number of entries of the acks map that are promised.\<close>

definition promised :: "(endpoint \<times> response) list \<Rightarrow> nat" where
  "promised m = length (filter (\<lambda>i. snd i = response_ack) m)"

fun promise_for :: "endpoint \<Rightarrow> callback \<Rightarrow> bool" where
  "promise_for e (Receive_promise client_connection e1 server_connection byte_array) = (e1 = e)"
| "promise_for e cb = False"

fun is_receive_accepted :: "callback \<Rightarrow> bool" where
  "is_receive_accepted (Receive_accepted client_connection e) = True"
| "is_receive_accepted cb = False"

text \<open>
  Two invariants of the configurations of a round. The first: every peer has at most
  one continuation waiting for its promise, it has one only while its ack is
  \<open>response_none\<close>, and a continuation waits for an accepted reply only when every
  ack is \<open>response_ack\<close>. The second: both maps are in key order, every endpoint with
  a response has an ack, and so has every endpoint an accepted reply is awaited from.
\<close>

definition round_inv :: "state \<Rightarrow> callback list \<Rightarrow> bool" where
  "round_inv st pending \<longleftrightarrow>
     (\<forall>e. length (filter (promise_for e) pending)
            \<le> (if map_of (accepted st) e = Some response_none then 1 else 0))
     \<and> ((\<exists>cb\<in>set pending. is_receive_accepted cb) \<longrightarrow> everyone_promised (accepted st))"

definition round_keys :: "state \<Rightarrow> callback list \<Rightarrow> bool" where
  "round_keys st pending \<longleftrightarrow>
     sorted_wrt (<) (map fst (accepted st))
     \<and> sorted_wrt (<) (map fst (responses st))
     \<and> fst ` set (responses st) \<subseteq> fst ` set (accepted st)
     \<and> (\<forall>c e. Receive_accepted c e \<in> set pending \<longrightarrow> e \<in> fst ` set (accepted st))"

text \<open>The accept commands among the actions of a handler, with their connections.\<close>

definition accept_writes :: "action list \<Rightarrow> (command \<times> tcp_connection_pointer) list" where
  "accept_writes acts =
     concat (map (\<lambda>a. case a of
                        Write_command c connection \<Rightarrow>
                          (if type c = type_request_accept then [(c, connection)] else [])
                      | _ \<Rightarrow> []) acts)"

text \<open>The arguments of the calls of the workload handler among the actions of a handler.\<close>

fun processed :: "action list \<Rightarrow> string list" where
  "processed [] = []"
| "processed (Process_workload w # acts) = w # processed acts"
| "processed (a # acts) = processed acts"

section \<open>Examples\<close>

text \<open>
  The cluster of test3.cpp seen from the node at 127.0.0.1:1337: two peers, at ports
  1338 and 1339, with cached connections 1 and 2.
\<close>

definition localhost :: nat where
  "localhost = 2130706433"

definition peers_example :: "(endpoint \<times> remote_server) list" where
  "peers_example =
     [((localhost, 1338), \<lparr>rs_state = state_follower, rs_id = 2, rs_connection = Some 1\<rparr>),
      ((localhost, 1339), \<lparr>rs_state = state_follower, rs_id = 3, rs_connection = Some 2\<rparr>)]"

definition leader_example :: node where
  "leader_example =
     \<lparr>m_quorum = \<lparr>self = \<lparr>self_endpoint = (localhost, 1337), self_id = 1,
                          self_state = state_leader\<rparr>,
                  servers = peers_example\<rparr>,
      m_proposal_id = 0\<rparr>"

definition follower_example :: node where
  "follower_example =
     \<lparr>m_quorum = \<lparr>self = \<lparr>self_endpoint = (localhost, 1338), self_id = 2,
                          self_state = state_follower\<rparr>,
                  servers = []\<rparr>,
      m_proposal_id = 5\<rparr>"

text \<open>
  A client request with payload \<open>abc\<close> (\<open>start\<close> reads only the workload of the
  request) and the identity handler of test3.cpp.
\<close>

definition request_example :: command where
  "request_example = (new_command type_request_accept)\<lparr>workload := ''abc''\<rparr>"

definition echo :: "string \<Rightarrow> string" where
  "echo w = w"

text \<open>A quorum whose only peer has not been contacted yet.\<close>

definition unconnected_example :: quorum where
  "unconnected_example =
     \<lparr>self = \<lparr>self_endpoint = (localhost, 1337), self_id = 1, self_state = state_unknown\<rparr>,
      servers = [((localhost, 1338),
                  \<lparr>rs_state = state_unknown, rs_id = 0, rs_connection = None\<rparr>)]\<rparr>"

definition connected_example :: quorum where
  "connected_example =
     \<lparr>self = \<lparr>self_endpoint = (localhost, 1337), self_id = 1, self_state = state_unknown\<rparr>,
      servers = [((localhost, 1338),
                  \<lparr>rs_state = state_follower, rs_id = 2, rs_connection = Some 5\<rparr>)]\<rparr>"

text \<open>
  A round of the leader of the example for the request \<open>abc\<close> of the client on
  connection 9: the state \<open>start\<close> leaves, the state after the promise of the peer at
  port 1338, the state after the promise of the peer at port 1339 (the accept phase
  has begun and the leader has recorded its own response), and the state after the
  accepted reply of the peer at port 1338.
\<close>

definition preparing_example :: state where
  "preparing_example =
     \<lparr>accepted = [((localhost, 1338), response_none), ((localhost, 1339), response_none)],
      responses = []\<rparr>"

definition one_promised_example :: state where
  "one_promised_example =
     \<lparr>accepted = [((localhost, 1338), response_ack), ((localhost, 1339), response_none)],
      responses = []\<rparr>"

definition accepting_example :: state where
  "accepting_example =
     \<lparr>accepted = [((localhost, 1337), response_ack), ((localhost, 1338), response_ack),
                  ((localhost, 1339), response_ack)],
      responses = [((localhost, 1337), [])]\<rparr>"

definition collecting_example :: state where
  "collecting_example =
     \<lparr>accepted = [((localhost, 1337), response_ack), ((localhost, 1338), response_ack),
                  ((localhost, 1339), response_ack)],
      responses = [((localhost, 1337), []), ((localhost, 1338), ''abc'')]\<rparr>"

definition completed_example :: state where
  "completed_example =
     \<lparr>accepted = [((localhost, 1337), response_ack), ((localhost, 1338), response_ack),
                  ((localhost, 1339), response_ack)],
      responses = [((localhost, 1337), []), ((localhost, 1338), ''abc''),
                   ((localhost, 1339), ''abc'')]\<rparr>"

text \<open>The accepted reply a follower writes for the result \<open>w\<close> of its handler.\<close>

definition accepted_reply :: "string \<Rightarrow> command" where
  "accepted_reply w = (new_command type_request_accepted)\<lparr>workload := w\<rparr>"

lemmas round_defs =
  receive_promise_def promise_response_def everyone_promised_def send_accept_def
  receive_accepted_def lookup_def PAXOS_ASSERT_def PAXOS_UNREACHABLE_def we_are_the_leader_def
  start_def send_prepare_def

lemmas round_example_defs =
  preparing_example_def one_promised_example_def accepting_example_def collecting_example_def
  completed_example_def
  accepted_reply_def leader_example_def peers_example_def request_example_def localhost_def
  new_command_def echo_def

text \<open>
  The same node right after construction (counter 0, self-state not yet known), and
  two runs of it: it receives a prepare, is elected leader and serves two requests.
\<close>

definition constructed_example :: node where
  "constructed_example =
     basic_paxos
       \<lparr>self = \<lparr>self_endpoint = (localhost, 1337), self_id = 1, self_state = state_unknown\<rparr>,
        servers = peers_example\<rparr>"

definition wrap_run_example :: "operation list" where
  "wrap_run_example =
     [Op_receive_prepare (Some 4) ((new_command type_request_prepare)\<lparr>proposal_id := 18446744073709551614\<rparr>),
      Op_adjust_our_state state_leader,
      Op_start (Some 9) request_example,
      Op_start (Some 9) request_example]"

definition run_example :: "operation list" where
  "run_example =
     [Op_receive_prepare (Some 4) ((new_command type_request_prepare)\<lparr>proposal_id := 7\<rparr>),
      Op_adjust_our_state state_leader,
      Op_start (Some 9) request_example,
      Op_start (Some 9) request_example]"

lemmas example_defs =
  constructed_example_def basic_paxos_def wrap_run_example_def run_example_def peers_example_def
  request_example_def localhost_def new_command_def leader_example_def follower_example_def

lemmas engine_defs =
  start_def receive_prepare_def send_prepare_def PAXOS_ASSERT_def we_are_the_leader_def
  adjust_our_state_def

section \<open>The map operations\<close>

lemma map_of_map_set: "map_of (map_set m k v) = (map_of m)(k \<mapsto> v)"
  by (induction m) (auto simp: fun_eq_iff)

lemma set_map_set: "set (map_set m k v) \<subseteq> insert (k, v) (set m)"
  by (induction m) auto

lemma map_set_mem: "(k, v) \<in> set (map_set m k v)"
  by (induction m) auto

lemma length_map_set_fresh: "map_of m k = None \<Longrightarrow> length (map_set m k v) = Suc (length m)"
  by (induction m) (auto split: if_splits)

lemma map_set_idem: "map_set (map_set m k v) k v = map_set m k v"
  by (induction m) auto

lemma sorted_map_set:
  "sorted_wrt (<) (map fst m) \<Longrightarrow> sorted_wrt (<) (map fst (map_set m k v))"
proof (induction m)
  case Nil
  then show ?case by simp
next
  case (Cons p m)
  have "set (map fst (map_set m k v)) \<subseteq> insert k (set (map fst m))"
    using set_map_set [of m k v] by force
  then have "\<forall>x\<in>set (map fst (map_set m k v)). x = k \<or> x \<in> set (map fst m)"
    by blast
  with Cons show ?case by fastforce
qed

lemma foldl_conj: "foldl (\<lambda>b i. b \<and> P i) b0 m = (b0 \<and> list_all P m)"
  by (induction m arbitrary: b0) auto

lemma everyone_promised_iff:
  "everyone_promised m = list_all (\<lambda>i. snd i = response_ack) m"
  by (simp add: everyone_promised_def foldl_conj)

lemma promised_everyone: "everyone_promised m \<Longrightarrow> promised m = length m"
  by (simp add: everyone_promised_iff promised_def list_all_iff)

lemma everyone_promised_map_of:
  "everyone_promised m \<Longrightarrow> map_of m e = Some r \<Longrightarrow> r = response_ack"
  by (auto simp: everyone_promised_iff list_all_iff dest!: map_of_SomeD)

lemma everyone_promised_map_set:
  "everyone_promised m \<Longrightarrow> everyone_promised (map_set m k response_ack)"
  using set_map_set [of m k response_ack] by (auto simp: everyone_promised_iff list_all_iff)

lemma not_everyone_promised_reject: "\<not> everyone_promised (map_set m k response_reject)"
proof
  assume "everyone_promised (map_set m k response_reject)"
  then have "\<forall>i\<in>set (map_set m k response_reject). snd i = response_ack"
    by (simp add: everyone_promised_iff list_all_iff)
  with map_set_mem [of k response_reject m] show False by fastforce
qed

section \<open>Follower path\<close>

text \<open>
  C2: a follower that receives a prepare with proposal id N strictly greater than
  its counter sets the counter to N and replies promise; otherwise the counter is
  unchanged and the reply is fail. In both cases exactly one command is written, on
  the connection the prepare came from.
\<close>

theorem receive_prepare_follower:
  assumes "\<not> we_are_the_leader (m_quorum n)"
  shows "\<exists>n' ret. receive_prepare n connection cmd = Inr (n', [Write_command ret connection])
           \<and> (if m_proposal_id n < proposal_id cmd
               then m_proposal_id n' = proposal_id cmd \<and> type ret = type_request_promise
               else n' = n \<and> type ret = type_request_fail)"
  using assms by (simp add: receive_prepare_def PAXOS_ASSERT_def new_command_def)

theorem receive_prepare_follower_witness:
  "\<not> we_are_the_leader (m_quorum follower_example)
   \<and> m_proposal_id follower_example = 5
   \<and> (\<exists>n' ret.
         receive_prepare follower_example (Some 4)
           ((new_command type_request_prepare)\<lparr>proposal_id := 7\<rparr>)
           = Inr (n', [Write_command ret (Some 4)])
         \<and> m_proposal_id n' = 7 \<and> type ret = type_request_promise)
   \<and> (\<exists>ret.
         receive_prepare follower_example (Some 4)
           ((new_command type_request_prepare)\<lparr>proposal_id := 5\<rparr>)
           = Inr (follower_example, [Write_command ret (Some 4)])
         \<and> type ret = type_request_fail)"
proof -
  have f: "\<not> we_are_the_leader (m_quorum follower_example)"
    by (simp add: we_are_the_leader_def follower_example_def)
  have p: "m_proposal_id follower_example = 5"
    by (simp add: follower_example_def)
  from receive_prepare_follower [OF f, of "Some 4"
        "(new_command type_request_prepare)\<lparr>proposal_id := 7\<rparr>"] p
  have a: "\<exists>n' ret.
         receive_prepare follower_example (Some 4)
           ((new_command type_request_prepare)\<lparr>proposal_id := 7\<rparr>)
           = Inr (n', [Write_command ret (Some 4)])
         \<and> m_proposal_id n' = 7 \<and> type ret = type_request_promise"
    by (simp add: new_command_def)
  from receive_prepare_follower [OF f, of "Some 4"
        "(new_command type_request_prepare)\<lparr>proposal_id := 5\<rparr>"] p
  have b: "\<exists>ret.
         receive_prepare follower_example (Some 4)
           ((new_command type_request_prepare)\<lparr>proposal_id := 5\<rparr>)
           = Inr (follower_example, [Write_command ret (Some 4)])
         \<and> type ret = type_request_fail"
    by (simp add: new_command_def)
  from f p a b show ?thesis by blast
qed

text \<open>
  C10: when a prepare arrives at a node whose self-state is leader, the assertion at
  the top of \<open>receive_prepare\<close> fails and the process halts: no reply, neither
  promise nor fail, is written and the counter is not touched.
\<close>

theorem receive_prepare_leader:
  assumes "we_are_the_leader (m_quorum n)"
  shows "receive_prepare n connection cmd = Inl Assertion_failed"
  using assms by (simp add: receive_prepare_def PAXOS_ASSERT_def)

theorem receive_prepare_leader_witness:
  "we_are_the_leader (m_quorum leader_example)
   \<and> receive_prepare leader_example (Some 4)
        ((new_command type_request_prepare)\<lparr>proposal_id := 7\<rparr>) = Inl Assertion_failed"
proof -
  have l: "we_are_the_leader (m_quorum leader_example)"
    by (simp add: we_are_the_leader_def leader_example_def)
  show ?thesis
    using l receive_prepare_leader [OF l] by simp
qed

section \<open>Leader path: entry\<close>

text \<open>
  C5, as stated, fails: a request submitted to the follower of the example is not
  answered with an error command; \<open>start\<close> stops at its assertion and nothing is
  written on the client connection.
\<close>

theorem start_non_leader_counterexample:
  "\<not> we_are_the_leader (m_quorum follower_example)
   \<and> start follower_example (Some 9) request_example = Inl Assertion_failed"
  by (simp add: start_def PAXOS_ASSERT_def we_are_the_leader_def follower_example_def)

text \<open>
  C5, amended: when a client request reaches a node that is not the leader, the
  assertion at the top of \<open>start\<close> fails and the process halts; the counter is not
  incremented, no prepare is sent and no command is written to the client.
\<close>

theorem start_non_leader:
  assumes "\<not> we_are_the_leader (m_quorum n)"
  shows "start n client_connection cmd = Inl Assertion_failed"
  using assms by (simp add: start_def PAXOS_ASSERT_def)

theorem start_non_leader_witness:
  "\<not> we_are_the_leader (m_quorum (follower_example\<lparr>m_proposal_id := 0\<rparr>))
   \<and> start (follower_example\<lparr>m_proposal_id := 0\<rparr>) (Some 3) request_example
       = Inl Assertion_failed"
proof -
  have f: "\<not> we_are_the_leader (m_quorum (follower_example\<lparr>m_proposal_id := 0\<rparr>))"
    by (simp add: we_are_the_leader_def follower_example_def)
  show ?thesis
    using f start_non_leader [OF f] by simp
qed

section \<open>Proposal counter\<close>

lemma word_inc_less: "(x :: 64 word) \<noteq> - 1 \<Longrightarrow> x < x + 1"
  using inc_less_eq_self_iff_eq [of x] by (simp add: not_le)

lemma start_counter:
  "start n client_connection cmd = Inr (n1, st, acts) \<Longrightarrow> m_proposal_id n1 = m_proposal_id n + 1"
  by (auto simp: start_def PAXOS_ASSERT_def Let_def split: sum.splits if_splits)

lemma receive_prepare_counter:
  "receive_prepare n connection cmd = Inr (n1, acts) \<Longrightarrow> m_proposal_id n \<le> m_proposal_id n1"
  by (auto simp: receive_prepare_def PAXOS_ASSERT_def split: if_splits)

lemma perform_counter:
  assumes "perform h opn n = Inr n1"
      and "is_start opn \<longrightarrow> m_proposal_id n \<noteq> - 1"
  shows "m_proposal_id n \<le> m_proposal_id n1
         \<and> (is_start opn \<longrightarrow> m_proposal_id n < m_proposal_id n1)"
proof (cases opn)
  case (Op_start client_connection cmd)
  with assms(1) obtain st acts where "start n client_connection cmd = Inr (n1, st, acts)"
    by (auto split: sum.splits)
  then have "m_proposal_id n1 = m_proposal_id n + 1" by (rule start_counter)
  moreover from assms(2) Op_start have "m_proposal_id n \<noteq> - 1" by simp
  ultimately show ?thesis using word_inc_less [of "m_proposal_id n"] by simp
next
  case (Op_receive_prepare connection cmd)
  with assms(1) obtain acts where "receive_prepare n connection cmd = Inr (n1, acts)"
    by (auto split: sum.splits)
  then have "m_proposal_id n \<le> m_proposal_id n1" by (rule receive_prepare_counter)
  with Op_receive_prepare show ?thesis by simp
next
  case (Op_receive_promise c e sc b cmd st)
  with assms(1) show ?thesis by (auto split: sum.splits)
next
  case (Op_receive_accept c cmd)
  with assms(1) show ?thesis by auto
next
  case (Op_receive_accepted c e cmd st)
  with assms(1) show ?thesis by (auto split: sum.splits)
next
  case Op_step1
  with assms(1) show ?thesis by auto
next
  case (Op_step2 e c err)
  with assms(1) show ?thesis by (auto split: sum.splits)
next
  case (Op_step3 c cmd)
  with assms(1) show ?thesis by auto
next
  case (Op_step4 e c cmd)
  with assms(1) show ?thesis by (auto split: sum.splits)
next
  case (Op_adjust_our_state s)
  with assms(1) show ?thesis by auto
qed


lemma counters_halt: "perform h opn n = Inl x \<Longrightarrow> counters h (opn # rest) n = [m_proposal_id n]"
  by (simp add: counters_def)

lemma counters_Cons:
  "perform h opn n = Inr n1 \<Longrightarrow> counters h (opn # rest) n = m_proposal_id n # counters h rest n1"
  by (simp add: counters_def)

lemma request_ids_halt: "perform h opn n = Inl x \<Longrightarrow> request_ids h (opn # rest) n = []"
  by (simp add: request_ids_def)

lemma request_ids_Cons:
  "perform h opn n = Inr n1 \<Longrightarrow>
   request_ids h (opn # rest) n
     = (if is_start opn then m_proposal_id n1 # request_ids h rest n1 else request_ids h rest n1)"
  by (simp add: request_ids_def)

lemma no_wrap_Cons:
  "perform h opn n = Inr n1 \<Longrightarrow>
   no_wrap h (opn # rest) n
     = ((is_start opn \<longrightarrow> m_proposal_id n \<noteq> - 1) \<and> no_wrap h rest n1)"
  by (simp add: no_wrap_def)

lemma history_increasing:
  "no_wrap h ops n \<Longrightarrow>
     sorted (counters h ops n) \<and> sorted_wrt (<) (request_ids h ops n)
     \<and> (\<forall>x\<in>set (counters h ops n). m_proposal_id n \<le> x)
     \<and> (\<forall>x\<in>set (request_ids h ops n). m_proposal_id n < x)"
proof (induction ops arbitrary: n)
  case Nil
  then show ?case by (simp add: counters_def request_ids_def)
next
  case (Cons opn rest)
  show ?case
  proof (cases "perform h opn n")
    case (Inl x)
    then show ?thesis by (simp add: counters_halt request_ids_halt)
  next
    case (Inr n1)
    from Cons.prems Inr have nw: "no_wrap h rest n1"
      and st: "is_start opn \<longrightarrow> m_proposal_id n \<noteq> - 1"
      by (simp_all add: no_wrap_Cons)
    from perform_counter [OF Inr st]
    have le: "m_proposal_id n \<le> m_proposal_id n1"
      and lt: "is_start opn \<longrightarrow> m_proposal_id n < m_proposal_id n1" by simp_all
    from Cons.IH [OF nw]
    have s1: "sorted (counters h rest n1)"
      and s2: "sorted_wrt (<) (request_ids h rest n1)"
      and b1: "\<forall>x\<in>set (counters h rest n1). m_proposal_id n1 \<le> x"
      and b2: "\<forall>x\<in>set (request_ids h rest n1). m_proposal_id n1 < x"
      by simp_all
    from b1 le have c1: "\<forall>x\<in>set (counters h rest n1). m_proposal_id n \<le> x"
      by (meson order_trans)
    from b2 le have c2: "\<forall>x\<in>set (request_ids h rest n1). m_proposal_id n < x"
      by (meson le_less_trans)
    have "sorted (counters h (opn # rest) n)"
      using s1 c1 by (simp add: counters_Cons [OF Inr])
    moreover have "sorted_wrt (<) (request_ids h (opn # rest) n)"
      using s2 b2 by (simp add: request_ids_Cons [OF Inr])
    moreover have "\<forall>x\<in>set (counters h (opn # rest) n). m_proposal_id n \<le> x"
      using c1 by (simp add: counters_Cons [OF Inr])
    moreover have "\<forall>x\<in>set (request_ids h (opn # rest) n). m_proposal_id n < x"
      using c2 lt by (simp add: request_ids_Cons [OF Inr])
    ultimately show ?thesis by blast
  qed
qed

lemma history_start:
  "(n0, opn, n1) \<in> set (history h ops n) \<Longrightarrow> is_start opn
   \<Longrightarrow> m_proposal_id n1 = m_proposal_id n0 + 1"
proof (induction ops arbitrary: n)
  case Nil
  then show ?case by simp
next
  case (Cons a rest)
  show ?case
  proof (cases "perform h a n")
    case (Inl x)
    with Cons.prems show ?thesis by simp
  next
    case (Inr n')
    with Cons.prems(1) consider "n0 = n \<and> opn = a \<and> n1 = n'" | "(n0, opn, n1) \<in> set (history h rest n')"
      by auto
    then show ?thesis
    proof cases
      case 1
      with Inr Cons.prems(2) obtain c cmd st acts where "start n c cmd = Inr (n1, st, acts)"
        by (cases a) (auto split: sum.splits)
      with 1 show ?thesis by (simp add: start_counter)
    next
      case 2
      then show ?thesis using Cons.IH Cons.prems(2) by blast
    qed
  qed
qed


lemma wrap_counters:
  "counters echo wrap_run_example constructed_example = [0, 18446744073709551614, 18446744073709551614, 18446744073709551615, 0]"
  by (simp add: counters_def example_defs engine_defs)

lemma wrap_ids:
  "request_ids echo wrap_run_example constructed_example = [18446744073709551615, 0]"
  by (simp add: request_ids_def example_defs engine_defs)

text \<open>
  C3, as stated, fails: the counter is a 64-bit unsigned integer and \<open>++\<close> wraps.
  A node that has seen a prepare with proposal id \<open>2^64 - 2\<close> and is then elected
  leader gives its first request the id \<open>2^64 - 1\<close> and its second request the id 0:
  the counter decreases, and the ids of the two requests are not increasing.
\<close>

theorem proposal_counter_counterexample:
  "\<not> sorted (counters echo wrap_run_example constructed_example)
   \<and> \<not> sorted_wrt (<) (request_ids echo wrap_run_example constructed_example)"
  by (simp add: wrap_counters wrap_ids)

text \<open>
  C3, amended: in every run of a node in which no \<open>start\<close> finds the counter at
  \<open>2^64 - 1\<close>, the counter never decreases under any operation, every \<open>start\<close>
  increments it by one before the prepares are sent, and the proposal ids of
  successive client requests are strictly increasing.
\<close>

theorem proposal_counter_monotone:
  assumes "no_wrap h ops n"
  shows "sorted (counters h ops n) \<and> sorted_wrt (<) (request_ids h ops n)
         \<and> (\<forall>t\<in>set (history h ops n).
               is_start (fst (snd t)) \<longrightarrow> m_proposal_id (snd (snd t)) = m_proposal_id (fst t) + 1)"
proof -
  have "\<forall>t\<in>set (history h ops n).
          is_start (fst (snd t)) \<longrightarrow> m_proposal_id (snd (snd t)) = m_proposal_id (fst t) + 1"
    using history_start [of _ _ _ h ops n] by auto
  with history_increasing [OF assms] show ?thesis by blast
qed

lemma run_counters:
  "counters echo run_example constructed_example = [0, 7, 7, 8, 9]"
  by (simp add: counters_def example_defs engine_defs)

lemma run_ids:
  "request_ids echo run_example constructed_example = [8, 9]"
  by (simp add: request_ids_def example_defs engine_defs)

lemma run_no_wrap: "no_wrap echo run_example constructed_example"
  by (simp add: no_wrap_def example_defs engine_defs)

theorem proposal_counter_monotone_witness:
  "no_wrap echo run_example constructed_example
   \<and> counters echo run_example constructed_example = [0, 7, 7, 8, 9]
   \<and> request_ids echo run_example constructed_example = [8, 9]
   \<and> sorted (counters echo run_example constructed_example)
   \<and> sorted_wrt (<) (request_ids echo run_example constructed_example)"
  using proposal_counter_monotone [OF run_no_wrap] run_no_wrap run_counters run_ids by simp

section \<open>Handshake\<close>

lemma lookup_modify_Inr:
  assumes "lookup_modify q e f = Inr q1"
  obtains r where "lookup q e = Inr r" and "q1 = q\<lparr>servers := map_set (servers q) e (f r)\<rparr>"
  using assms by (auto simp: lookup_modify_def split: sum.splits)

lemma lookup_map_set: "lookup (q\<lparr>servers := map_set m e r\<rparr>) e = Inr r"
  by (simp add: lookup_def map_of_map_set)

lemma lookup_modify_fixed:
  assumes "servers q = map_set m e r" and "f r = r"
  shows "lookup_modify q e f = Inr q"
proof -
  from assms(1) have "lookup q e = Inr r"
    by (simp add: lookup_def map_of_map_set)
  moreover from assms(1) have "map_set (servers q) e r = servers q"
    by (simp add: map_set_idem)
  ultimately show ?thesis using assms(2) by (simp add: lookup_modify_def)
qed

lemma remote_server_updates:
  "r\<lparr>rs_state := s, rs_id := i, rs_connection := c\<rparr>
     = \<lparr>rs_state = s, rs_id = i, rs_connection = c\<rparr>"
  "rs_connection r = c \<Longrightarrow> r\<lparr>rs_state := s, rs_id := i\<rparr>
     = \<lparr>rs_state = s, rs_id = i, rs_connection = c\<rparr>"
  by (cases r; simp)+

lemma step4_result:
  assumes "step4 q e (Some c) cmd = Inr q1"
  obtains r0 m where "host_endpoint cmd = e" and "lookup q e = Inr r0"
    and "q1 = q\<lparr>servers := map_set m e
                 \<lparr>rs_state = host_state cmd, rs_id = host_id cmd,
                  rs_connection = (if rs_connection r0 = None then Some c else rs_connection r0)\<rparr>\<rparr>"
proof -
  from assms have he: "host_endpoint cmd = e"
    by (simp add: step4_def PAXOS_ASSERT_def split: if_splits)
  with assms obtain qa qb rb where
    a: "lookup_modify q e (set_state (host_state cmd)) = Inr qa" and
    b: "lookup_modify qa e (set_id (host_id cmd)) = Inr qb" and
    l: "lookup qb e = Inr rb" and
    c: "(if has_connection rb = False then lookup_modify qb e (set_connection (Some c)) else Inr qb)
          = Inr q1"
    by (auto simp: step4_def PAXOS_ASSERT_def split: sum.splits)
  from a obtain r0 where r0: "lookup q e = Inr r0"
    and qa: "qa = q\<lparr>servers := map_set (servers q) e (set_state (host_state cmd) r0)\<rparr>"
    by (rule lookup_modify_Inr)
  from b obtain ra where ra: "lookup qa e = Inr ra"
    and qb: "qb = qa\<lparr>servers := map_set (servers qa) e (set_id (host_id cmd) ra)\<rparr>"
    by (rule lookup_modify_Inr)
  from ra qa have ra_eq: "ra = set_state (host_state cmd) r0"
    by (simp add: lookup_map_set)
  from l qb have rb_eq: "rb = set_id (host_id cmd) ra"
    by (simp add: lookup_map_set)
  show ?thesis
  proof (cases "rs_connection r0 = None")
    case True
    with c rb_eq ra_eq have "lookup_modify qb e (set_connection (Some c)) = Inr q1"
      by (simp add: has_connection_def set_id_def set_state_def)
    then obtain rc where rc: "lookup qb e = Inr rc"
      and q1: "q1 = qb\<lparr>servers := map_set (servers qb) e (set_connection (Some c) rc)\<rparr>"
      by (rule lookup_modify_Inr)
    from rc l have "rc = rb" by simp
    with q1 qb qa rb_eq ra_eq True
    have "q1 = q\<lparr>servers := map_set (servers qb) e
                 \<lparr>rs_state = host_state cmd, rs_id = host_id cmd,
                  rs_connection = (if rs_connection r0 = None then Some c else rs_connection r0)\<rparr>\<rparr>"
      by (simp add: set_connection_def set_id_def set_state_def remote_server_updates)
    with he r0 show ?thesis by (rule that)
  next
    case False
    with c rb_eq ra_eq have "q1 = qb"
      by (simp add: has_connection_def set_id_def set_state_def)
    with qb qa rb_eq ra_eq False
    have "q1 = q\<lparr>servers := map_set (servers qa) e
                 \<lparr>rs_state = host_state cmd, rs_id = host_id cmd,
                  rs_connection = (if rs_connection r0 = None then Some c else rs_connection r0)\<rparr>\<rparr>"
      by (auto simp: set_connection_def set_id_def set_state_def remote_server_updates)
    with he r0 show ?thesis by (rule that)
  qed
qed

lemma step4_fixed:
  assumes "servers q = map_set m e r" and "host_endpoint cmd = e"
    and "rs_state r = host_state cmd" and "rs_id r = host_id cmd" and "rs_connection r \<noteq> None"
  shows "step4 q e connection cmd = Inr q"
proof -
  have a: "lookup_modify q e (set_state (host_state cmd)) = Inr q"
    using assms(1) by (rule lookup_modify_fixed) (simp add: set_state_def assms(3) [symmetric])
  have b: "lookup_modify q e (set_id (host_id cmd)) = Inr q"
    using assms(1) by (rule lookup_modify_fixed) (simp add: set_id_def assms(4) [symmetric])
  have l: "lookup q e = Inr r"
    using assms(1) by (simp add: lookup_def map_of_map_set)
  show ?thesis
    using a b l assms(2,5) by (simp add: step4_def PAXOS_ASSERT_def has_connection_def)
qed

lemma step4_idempotent:
  assumes "step4 q e (Some c1) cmd = Inr q1"
  shows "step4 q1 e (Some c2) cmd = Inr q1
         \<and> (\<exists>r0 r1. lookup q e = Inr r0 \<and> lookup q1 e = Inr r1
               \<and> rs_id r1 = host_id cmd \<and> rs_state r1 = host_state cmd
               \<and> rs_connection r1 = (if has_connection r0 then rs_connection r0 else Some c1))"
proof -
  from assms obtain r0 m where he: "host_endpoint cmd = e" and r0: "lookup q e = Inr r0"
    and q1: "q1 = q\<lparr>servers := map_set m e
                 \<lparr>rs_state = host_state cmd, rs_id = host_id cmd,
                  rs_connection = (if rs_connection r0 = None then Some c1 else rs_connection r0)\<rparr>\<rparr>"
    by (rule step4_result)
  let ?r1 = "\<lparr>rs_state = host_state cmd, rs_id = host_id cmd,
              rs_connection = (if rs_connection r0 = None then Some c1 else rs_connection r0)\<rparr>"
  from q1 have s: "servers q1 = map_set m e ?r1" by simp
  have "step4 q1 e (Some c2) cmd = Inr q1"
    using s he by (rule step4_fixed) simp_all
  moreover from q1 have "lookup q1 e = Inr ?r1" by (simp add: lookup_map_set)
  ultimately show ?thesis using r0 by (auto simp: has_connection_def)
qed


lemma handshake_once_step4:
  "handshake_once q peer e c =
     step4 q e (Some c)
       ((new_command type_handshake_response)
          \<lparr>host_id := self_id (self peer),
           host_endpoint := self_endpoint (self peer),
           host_state := self_state (self peer)\<rparr>)"
  by (simp add: handshake_once_def step2_def step3_def)

text \<open>
  C9: running the handshake procedure a second time against the same live peer leaves
  the quorum, and so the peer record, exactly as the first run left it. After either
  run the stored identity and state are the ones the peer reports about itself, and
  the cached connection is the connection of the first run only when the record had
  none before; otherwise the old connection is kept.
\<close>

theorem handshake_idempotent:
  assumes "handshake_once q peer e c1 = Inr q1"
  shows "handshake_once q1 peer e c2 = Inr q1
         \<and> (\<exists>r0 r1. lookup q e = Inr r0 \<and> lookup q1 e = Inr r1
               \<and> rs_id r1 = self_id (self peer) \<and> rs_state r1 = self_state (self peer)
               \<and> rs_connection r1 = (if has_connection r0 then rs_connection r0 else Some c1))"
  using step4_idempotent [OF assms [unfolded handshake_once_step4], of c2]
  by (simp add: handshake_once_step4 new_command_def)

lemma handshake_example:
  "handshake_once unconnected_example (m_quorum follower_example) (localhost, 1338) 5
     = Inr connected_example"
  by (simp add: handshake_once_step4 step4_def PAXOS_ASSERT_def lookup_modify_def lookup_def
      set_state_def set_id_def set_connection_def has_connection_def
      unconnected_example_def connected_example_def follower_example_def new_command_def)

theorem handshake_idempotent_witness:
  "handshake_once unconnected_example (m_quorum follower_example) (localhost, 1338) 5
     = Inr connected_example
   \<and> handshake_once connected_example (m_quorum follower_example) (localhost, 1338) 6
     = Inr connected_example
   \<and> lookup connected_example (localhost, 1338)
     = Inr \<lparr>rs_state = state_follower, rs_id = 2, rs_connection = Some 5\<rparr>"
  using handshake_idempotent [OF handshake_example, of 6] handshake_example
  by (simp add: lookup_def connected_example_def)

section \<open>Leader rounds: the handlers and the invariants\<close>

lemma receive_accepted_Inr:
  assumes "receive_accepted client_connection e cmd st = Inr (st1, acts)"
  shows "map_of (responses st) e = None"
    and "st1 = st\<lparr>responses := map_set (responses st) e (workload cmd)\<rparr>"
    and "acts = (if Suc (length (responses st)) = length (accepted st)
                 then [Write_command cmd client_connection] else [])"
proof -
  from assms show a: "map_of (responses st) e = None"
    by (simp add: receive_accepted_def PAXOS_ASSERT_def split: if_splits)
  from assms a show "st1 = st\<lparr>responses := map_set (responses st) e (workload cmd)\<rparr>"
    by (auto simp: receive_accepted_def PAXOS_ASSERT_def Let_def)
  from assms a show "acts = (if Suc (length (responses st)) = length (accepted st)
                 then [Write_command cmd client_connection] else [])"
    by (auto simp: receive_accepted_def PAXOS_ASSERT_def Let_def length_map_set_fresh)
qed

lemma callbacks_append: "callbacks (xs @ ys) = callbacks xs @ callbacks ys"
  by (induction xs rule: callbacks.induct) simp_all

lemma accept_writes_append: "accept_writes (xs @ ys) = accept_writes xs @ accept_writes ys"
  by (simp add: accept_writes_def)

lemma send_accept_Inr:
  assumes "send_accept client_connection e connection byte_array st = Inr acts"
  shows "map_of (accepted st) e = Some response_ack"
    and "acts = [Write_command ((new_command type_request_accept)\<lparr>workload := byte_array\<rparr>)
                   connection,
                 Read_command connection (Receive_accepted client_connection e)]"
  using assms by (simp_all add: send_accept_def PAXOS_ASSERT_def split: if_splits)

lemma send_accept_loop_callbacks:
  "send_accept_loop n client_connection byte_array ls st = Inr acts
   \<Longrightarrow> callbacks acts = map (\<lambda>i. Receive_accepted client_connection (fst i)) ls"
proof (induction ls arbitrary: acts)
  case Nil
  then show ?case by simp
next
  case (Cons i rest)
  from Cons.prems obtain r acts1 acts2 where
    "lookup (m_quorum n) (fst i) = Inr r"
    and s: "send_accept client_connection (fst i) (rs_connection r) byte_array st = Inr acts1"
    and l: "send_accept_loop n client_connection byte_array rest st = Inr acts2"
    and a: "acts = acts1 @ acts2"
    by (auto split: sum.splits)
  from send_accept_Inr(2) [OF s] Cons.IH [OF l] a show ?case
    by simp
qed

lemma send_accept_loop_writes:
  "send_accept_loop n client_connection byte_array ls st = Inr acts
   \<Longrightarrow> (c, k) \<in> set (accept_writes acts)
   \<Longrightarrow> \<exists>i\<in>set ls. \<exists>r. map_of (accepted st) (fst i) = Some response_ack
          \<and> lookup (m_quorum n) (fst i) = Inr r \<and> k = rs_connection r
          \<and> c = (new_command type_request_accept)\<lparr>workload := byte_array\<rparr>"
proof (induction ls arbitrary: acts)
  case Nil
  then show ?case by (simp add: accept_writes_def)
next
  case (Cons i rest)
  from Cons.prems(1) obtain r acts1 acts2 where
    lk: "lookup (m_quorum n) (fst i) = Inr r"
    and s: "send_accept client_connection (fst i) (rs_connection r) byte_array st = Inr acts1"
    and l: "send_accept_loop n client_connection byte_array rest st = Inr acts2"
    and a: "acts = acts1 @ acts2"
    by (auto split: sum.splits)
  from Cons.prems(2) a consider "(c, k) \<in> set (accept_writes acts1)" | "(c, k) \<in> set (accept_writes acts2)"
    by (auto simp: accept_writes_append)
  then show ?case
  proof cases
    case 1
    with send_accept_Inr [OF s] lk show ?thesis
      by (auto simp: accept_writes_def new_command_def)
  next
    case 2
    from Cons.IH [OF l 2] show ?thesis by auto
  qed
qed

lemma receive_promise_cases:
  assumes "receive_promise h n client_connection e server_connection byte_array cmd st
             = Inr (st1, acts)"
  obtains (stall) r where
      "promise_response cmd = Inr r"
      "\<not> everyone_promised (map_set (accepted st) e r)"
      "st1 = st\<lparr>accepted := map_set (accepted st) e r\<rparr>"
      "acts = []"
  | (accept) r acts1 acts2 where
      "promise_response cmd = Inr r"
      "everyone_promised (map_set (accepted st) e r)"
      "send_accept_loop n client_connection byte_array (map_set (accepted st) e r)
         (st\<lparr>accepted := map_set (accepted st) e r\<rparr>) = Inr acts1"
      "receive_accepted client_connection (self_endpoint (self (m_quorum n)))
         ((new_command type_request_accepted)\<lparr>workload := h (workload cmd)\<rparr>)
         (st\<lparr>accepted := map_set (map_set (accepted st) e r)
                             (self_endpoint (self (m_quorum n))) response_ack\<rparr>)
         = Inr (st1, acts2)"
      "acts = acts1 @ [Process_workload (workload cmd)] @ acts2"
proof -
  from assms obtain r where r: "promise_response cmd = Inr r"
    by (auto simp: receive_promise_def PAXOS_ASSERT_def split: if_splits sum.splits)
  show ?thesis
  proof (cases "everyone_promised (map_set (accepted st) e r)")
    case False
    with assms r have "st1 = st\<lparr>accepted := map_set (accepted st) e r\<rparr>" and "acts = []"
      by (auto simp: receive_promise_def PAXOS_ASSERT_def Let_def split: if_splits)
    with r False show ?thesis by (rule stall)
  next
    case True
    with assms r obtain acts1 acts2 where
      "send_accept_loop n client_connection byte_array (map_set (accepted st) e r)
         (st\<lparr>accepted := map_set (accepted st) e r\<rparr>) = Inr acts1"
      "receive_accepted client_connection (self_endpoint (self (m_quorum n)))
         ((new_command type_request_accepted)\<lparr>workload := h (workload cmd)\<rparr>)
         (st\<lparr>accepted := map_set (map_set (accepted st) e r)
                             (self_endpoint (self (m_quorum n))) response_ack\<rparr>)
         = Inr (st1, acts2)"
      "acts = acts1 @ [Process_workload (workload cmd)] @ acts2"
      by (auto simp: receive_promise_def PAXOS_ASSERT_def Let_def split: if_splits sum.splits)
    with r True show ?thesis by (rule accept)
  qed
qed


lemma count_remove1_promise:
  "cb \<in> set pending \<Longrightarrow> promise_for e cb
   \<Longrightarrow> length (filter (promise_for e) (remove1 cb pending))
       = length (filter (promise_for e) pending) - 1"
  by (simp add: filter_remove1 length_remove1)

lemma count_remove1_other:
  "\<not> promise_for e cb
   \<Longrightarrow> filter (promise_for e) (remove1 cb pending) = filter (promise_for e) pending"
  by (simp add: filter_remove1 remove1_idem)

lemma promise_for_accepted: "is_receive_accepted cb \<Longrightarrow> \<not> promise_for e cb"
  by (cases cb) simp_all

lemma filter_promise_accepted:
  "filter (promise_for e) (map (\<lambda>i. Receive_accepted c (f i)) ls) = []"
  by (induction ls) simp_all

lemma send_prepare_Inr:
  assumes "send_prepare n client_connection e connection w st = Inr (st1, acts)"
  shows "map_of (accepted st) e = None"
    and "st1 = st\<lparr>accepted := map_set (accepted st) e response_none\<rparr>"
    and "callbacks acts = [Receive_promise client_connection e connection w]"
  using assms by (auto simp: send_prepare_def PAXOS_ASSERT_def split: if_splits)

lemma start_loop_inv:
  "start_loop n client_connection w srv st0 = Inr (st, acts)
   \<Longrightarrow> \<forall>e. length (filter (promise_for e) pend0)
            \<le> (if map_of (accepted st0) e = Some response_none then 1 else 0)
   \<Longrightarrow> (\<forall>e. length (filter (promise_for e) (pend0 @ callbacks acts))
            \<le> (if map_of (accepted st) e = Some response_none then 1 else 0))
       \<and> (\<forall>cb\<in>set (callbacks acts). \<not> is_receive_accepted cb)"
proof (induction srv arbitrary: st0 pend0 acts)
  case Nil
  then show ?case by simp
next
  case (Cons i rest)
  show ?case
  proof (cases "rs_state (snd i) = state_dead")
    case True
    with Cons.prems(1) have "start_loop n client_connection w rest st0 = Inr (st, acts)"
      by simp
    from Cons.IH [OF this Cons.prems(2)] show ?thesis .
  next
    case False
    with Cons.prems(1) obtain st1 acts1 acts2 where
      sp: "send_prepare n client_connection (fst i) (rs_connection (snd i)) w st0 = Inr (st1, acts1)"
      and sl: "start_loop n client_connection w rest st1 = Inr (st, acts2)"
      and a: "acts = acts1 @ acts2"
      by (cases "rs_state (snd i)") (auto split: sum.splits)
    note sp' = send_prepare_Inr [OF sp]
    let ?cb = "Receive_promise client_connection (fst i) (rs_connection (snd i)) w"
    have pre: "\<forall>e. length (filter (promise_for e) (pend0 @ [?cb]))
                 \<le> (if map_of (accepted st1) e = Some response_none then 1 else 0)"
    proof
      fix e
      show "length (filter (promise_for e) (pend0 @ [?cb]))
              \<le> (if map_of (accepted st1) e = Some response_none then 1 else 0)"
      proof (cases "e = fst i")
        case True
        from Cons.prems(2)
        have "length (filter (promise_for e) pend0)
                \<le> (if map_of (accepted st0) e = Some response_none then 1 else 0)" ..
        with True sp'(1) have "length (filter (promise_for e) pend0) = 0"
          by simp
        with True sp'(2) show ?thesis by (simp add: map_of_map_set)
      next
        case False
        from Cons.prems(2)
        have "length (filter (promise_for e) pend0)
                \<le> (if map_of (accepted st0) e = Some response_none then 1 else 0)" ..
        with False sp'(2) show ?thesis by (simp add: map_of_map_set)
      qed
    qed
    from Cons.IH [OF sl pre] a sp'(3) show ?thesis
      by (simp add: callbacks_append)
  qed
qed

lemma start_inv:
  assumes "start n client_connection cmd = Inr (n1, st, acts)"
  shows "round_inv st (callbacks acts)"
proof -
  from assms have "start_loop (n\<lparr>m_proposal_id := m_proposal_id n + 1\<rparr>) client_connection
      (workload cmd) (servers (m_quorum n)) \<lparr>accepted = [], responses = []\<rparr> = Inr (st, acts)"
    by (auto simp: start_def PAXOS_ASSERT_def Let_def split: if_splits sum.splits)
  from start_loop_inv [OF this, of "[]"] show ?thesis
    by (auto simp: round_inv_def)
qed


lemma round_inv_count:
  "round_inv st pending
   \<Longrightarrow> length (filter (promise_for e) pending)
         \<le> (if map_of (accepted st) e = Some response_none then 1 else 0)"
  unfolding round_inv_def by (elim conjE allE)

lemma round_inv_pending_promise:
  assumes "round_inv st pending" and "Receive_promise c e sc b \<in> set pending"
  shows "map_of (accepted st) e = Some response_none"
proof (rule ccontr)
  assume "map_of (accepted st) e \<noteq> Some response_none"
  with round_inv_count [OF assms(1), of e] have "filter (promise_for e) pending = []"
    by simp
  moreover from assms(2) have "Receive_promise c e sc b \<in> set (filter (promise_for e) pending)"
    by simp
  ultimately show False by simp
qed

lemma round_inv_promise:
  assumes inv: "round_inv st pending"
    and cb: "Receive_promise c e sc b \<in> set pending"
    and rp: "receive_promise h n c e sc b cmd st = Inr (st1, acts)"
  shows "round_inv st1 (remove1 (Receive_promise c e sc b) pending @ callbacks acts)"
proof -
  let ?cb = "Receive_promise c e sc b"
  from inv cb have none: "map_of (accepted st) e = Some response_none"
    by (rule round_inv_pending_promise)
  then have "\<not> everyone_promised (accepted st)"
    using everyone_promised_map_of [of "accepted st" e response_none] by auto
  with inv have no_acc: "\<forall>x\<in>set pending. \<not> is_receive_accepted x"
    by (auto simp: round_inv_def)
  have own: "filter (promise_for e) (remove1 ?cb pending) = []"
  proof -
    from round_inv_count [OF inv, of e] have "length (filter (promise_for e) pending) \<le> 1"
      by (simp split: if_splits)
    with count_remove1_promise [OF cb, of e] show ?thesis by simp
  qed
  have other: "e1 \<noteq> e \<Longrightarrow>
      filter (promise_for e1) (remove1 ?cb pending) = filter (promise_for e1) pending" for e1
    by (rule count_remove1_other) simp
  from rp show ?thesis
  proof (cases rule: receive_promise_cases)
    case (stall r)
    have "length (filter (promise_for e1) (remove1 ?cb pending))
            \<le> (if map_of (accepted st1) e1 = Some response_none then 1 else 0)" for e1
    proof (cases "e1 = e")
      case True
      with own show ?thesis by simp
    next
      case False
      with other [OF False] round_inv_count [OF inv, of e1] stall(3) show ?thesis
        by (simp add: map_of_map_set)
    qed
    moreover from no_acc have "\<forall>x\<in>set (remove1 ?cb pending). \<not> is_receive_accepted x"
      using set_remove1_subset [of ?cb pending] by blast
    ultimately show ?thesis using stall(4) by (simp add: round_inv_def)
  next
    case (accept r acts1 acts2)
    let ?acks = "map_set (accepted st) e r"
    from receive_accepted_Inr(2,3) [OF accept(4)]
    have acc1: "accepted st1 = map_set ?acks (self_endpoint (self (m_quorum n))) response_ack"
      and cb2: "callbacks acts2 = []"
      by simp_all
    from accept(5) cb2 send_accept_loop_callbacks [OF accept(3)]
    have cbs: "callbacks acts = map (\<lambda>i. Receive_accepted c (fst i)) ?acks"
      by (simp add: callbacks_append)
    from accept(2) have ep: "everyone_promised (accepted st1)"
      unfolding acc1 by (rule everyone_promised_map_set)
    have "length (filter (promise_for e1) (remove1 ?cb pending @ callbacks acts))
            \<le> (if map_of (accepted st1) e1 = Some response_none then 1 else 0)" for e1
    proof (cases "e1 = e")
      case True
      with own show ?thesis by (simp add: cbs filter_promise_accepted)
    next
      case False
      have "map_of (accepted st) e1 \<noteq> Some response_none"
      proof
        assume "map_of (accepted st) e1 = Some response_none"
        with False have "map_of ?acks e1 = Some response_none" by (simp add: map_of_map_set)
        with accept(2) show False
          using everyone_promised_map_of [of ?acks e1 response_none] by auto
      qed
      with round_inv_count [OF inv, of e1] have "filter (promise_for e1) pending = []"
        by simp
      with other [OF False] show ?thesis by (simp add: cbs filter_promise_accepted)
    qed
    with ep show ?thesis by (simp add: round_inv_def)
  qed
qed

lemma round_inv_accepted:
  assumes inv: "round_inv st pending"
    and cb: "Receive_accepted c e \<in> set pending"
    and ra: "receive_accepted c e cmd st = Inr (st1, acts)"
  shows "round_inv st1 (remove1 (Receive_accepted c e) pending @ callbacks acts)"
proof -
  from receive_accepted_Inr(2,3) [OF ra]
  have acc: "accepted st1 = accepted st" and cbs: "callbacks acts = []"
    by simp_all
  from inv cb have ep: "everyone_promised (accepted st)"
    by (force simp: round_inv_def)
  have "filter (promise_for e1) (remove1 (Receive_accepted c e) pending)
          = filter (promise_for e1) pending" for e1
    by (rule count_remove1_other) simp
  with inv ep acc cbs show ?thesis by (simp add: round_inv_def)
qed

lemma round_reachable_inv: "round_reachable h st pending \<Longrightarrow> round_inv st pending"
proof (induction rule: round_reachable.induct)
  case (started n client_connection cmd n1 st acts)
  then show ?case by (rule start_inv)
next
  case (promise st pending client_connection e server_connection byte_array n cmd st1 acts)
  from promise.IH promise.hyps(2,3) show ?case by (rule round_inv_promise)
next
  case (accepted st pending client_connection e cmd st1 acts)
  from accepted.IH accepted.hyps(2,3) show ?case by (rule round_inv_accepted)
qed

lemma round_reachable_accept_phase:
  "round_reachable h st pending \<Longrightarrow> Receive_accepted c e \<in> set pending
   \<Longrightarrow> everyone_promised (accepted st)"
  by (drule round_reachable_inv) (force simp: round_inv_def)


lemma keys_map_set: "fst ` set (map_set m k v) = insert k (fst ` set m)"
  by (induction m) auto

lemma map_of_None_keys: "map_of m k = None \<longleftrightarrow> k \<notin> fst ` set m"
  by (simp add: map_of_eq_None_iff)

lemma sorted_keys_length:
  assumes "sorted_wrt (<) (map fst (m :: ('k::linorder \<times> 'v) list))"
  shows "length m = card (fst ` set m)"
proof -
  from assms have "distinct (map fst m)" by (simp add: strict_sorted_iff)
  then have "card (set (map fst m)) = length (map fst m)" by (rule distinct_card)
  then show ?thesis by simp
qed

lemma start_loop_keys:
  "start_loop n client_connection w srv st0 = Inr (st, acts)
   \<Longrightarrow> sorted_wrt (<) (map fst (accepted st0))
   \<Longrightarrow> sorted_wrt (<) (map fst (accepted st)) \<and> responses st = responses st0"
proof (induction srv arbitrary: st0 acts)
  case Nil
  then show ?case by simp
next
  case (Cons i rest)
  show ?case
  proof (cases "rs_state (snd i) = state_dead")
    case True
    with Cons.prems(1) have "start_loop n client_connection w rest st0 = Inr (st, acts)"
      by simp
    from Cons.IH [OF this Cons.prems(2)] show ?thesis .
  next
    case False
    with Cons.prems(1) obtain st1 acts1 acts2 where
      sp: "send_prepare n client_connection (fst i) (rs_connection (snd i)) w st0 = Inr (st1, acts1)"
      and sl: "start_loop n client_connection w rest st1 = Inr (st, acts2)"
      by (cases "rs_state (snd i)") (auto split: sum.splits)
    from send_prepare_Inr(2) [OF sp] Cons.prems(2)
    have "sorted_wrt (<) (map fst (accepted st1))" and "responses st1 = responses st0"
      by (simp_all add: sorted_map_set)
    with Cons.IH [OF sl] show ?thesis by simp
  qed
qed

lemma start_keys:
  assumes "start n client_connection cmd = Inr (n1, st, acts)"
  shows "round_keys st (callbacks acts)"
proof -
  from assms have sl: "start_loop (n\<lparr>m_proposal_id := m_proposal_id n + 1\<rparr>) client_connection
      (workload cmd) (servers (m_quorum n)) \<lparr>accepted = [], responses = []\<rparr> = Inr (st, acts)"
    by (auto simp: start_def PAXOS_ASSERT_def Let_def split: if_splits sum.splits)
  from start_loop_keys [OF sl]
  have "sorted_wrt (<) (map fst (accepted st))" and "responses st = []" by simp_all
  moreover from start_loop_inv [OF sl, of "[]"]
  have "\<forall>cb\<in>set (callbacks acts). \<not> is_receive_accepted cb" by simp
  then have "\<forall>c e. Receive_accepted c e \<in> set (callbacks acts) \<longrightarrow> e \<in> fst ` set (accepted st)"
    by force
  ultimately show ?thesis by (simp add: round_keys_def)
qed

lemma round_keys_pending:
  "round_keys st pending \<Longrightarrow> Receive_accepted c e \<in> set pending \<Longrightarrow> e \<in> fst ` set (accepted st)"
  unfolding round_keys_def by blast

lemma round_keys_promise:
  assumes inv: "round_keys st pending"
    and rp: "receive_promise h n c e sc b cmd st = Inr (st1, acts)"
  shows "round_keys st1 (remove1 (Receive_promise c e sc b) pending @ callbacks acts)"
proof -
  let ?cb = "Receive_promise c e sc b"
  from inv have sa: "sorted_wrt (<) (map fst (accepted st))"
    and sr: "sorted_wrt (<) (map fst (responses st))"
    and sub: "fst ` set (responses st) \<subseteq> fst ` set (accepted st)"
    by (simp_all add: round_keys_def)
  have pk: "e1 \<in> fst ` set (accepted st)" if "Receive_accepted c1 e1 \<in> set (remove1 ?cb pending)"
    for c1 e1
  proof -
    from that have "Receive_accepted c1 e1 \<in> set pending"
      using set_remove1_subset [of ?cb pending] by blast
    with inv show ?thesis by (rule round_keys_pending)
  qed
  from rp show ?thesis
  proof (cases rule: receive_promise_cases)
    case (stall r)
    have acc1: "accepted st1 = map_set (accepted st) e r" and res1: "responses st1 = responses st"
      using stall(3) by simp_all
    have keys: "fst ` set (accepted st1) = insert e (fst ` set (accepted st))"
      by (simp add: acc1 keys_map_set)
    have "sorted_wrt (<) (map fst (accepted st1))"
      by (simp add: acc1 sa sorted_map_set)
    moreover have "sorted_wrt (<) (map fst (responses st1))"
      by (simp add: res1 sr)
    moreover have "fst ` set (responses st1) \<subseteq> fst ` set (accepted st1)"
      using sub unfolding keys res1 by blast
    moreover have "\<forall>c1 e1. Receive_accepted c1 e1 \<in> set (remove1 ?cb pending @ callbacks acts)
            \<longrightarrow> e1 \<in> fst ` set (accepted st1)"
      using pk unfolding keys stall(4) by simp
    ultimately show ?thesis unfolding round_keys_def by blast
  next
    case (accept r acts1 acts2)
    let ?acks = "map_set (accepted st) e r"
    let ?self = "self_endpoint (self (m_quorum n))"
    from receive_accepted_Inr(2,3) [OF accept(4)]
    have acc1: "accepted st1 = map_set ?acks ?self response_ack"
      and res1: "responses st1 = map_set (responses st) ?self (h (workload cmd))"
      and cb2: "callbacks acts2 = []"
      by simp_all
    from accept(5) cb2 send_accept_loop_callbacks [OF accept(3)]
    have cbs: "callbacks acts = map (\<lambda>i. Receive_accepted c (fst i)) ?acks"
      by (simp add: callbacks_append)
    have keys: "fst ` set (accepted st1) = insert ?self (fst ` set ?acks)"
      unfolding acc1 by (rule keys_map_set)
    have keys0: "fst ` set ?acks = insert e (fst ` set (accepted st))"
      by (rule keys_map_set)
    have "sorted_wrt (<) (map fst (accepted st1))"
      by (simp add: acc1 sa sorted_map_set)
    moreover have "sorted_wrt (<) (map fst (responses st1))"
      by (simp add: res1 sr sorted_map_set)
    moreover have "fst ` set (responses st1) \<subseteq> fst ` set (accepted st1)"
      using sub unfolding keys keys0 res1 keys_map_set [of "responses st"] by blast
    moreover have "\<forall>c1 e1. Receive_accepted c1 e1 \<in> set (remove1 ?cb pending @ callbacks acts)
            \<longrightarrow> e1 \<in> fst ` set (accepted st1)"
    proof (intro allI impI)
      fix c1 e1
      assume "Receive_accepted c1 e1 \<in> set (remove1 ?cb pending @ callbacks acts)"
      then consider "Receive_accepted c1 e1 \<in> set (remove1 ?cb pending)"
        | "Receive_accepted c1 e1 \<in> set (callbacks acts)" by auto
      then show "e1 \<in> fst ` set (accepted st1)"
      proof cases
        case 1
        then have "e1 \<in> fst ` set (accepted st)" by (rule pk)
        then show ?thesis unfolding keys keys0 by blast
      next
        case 2
        then have "e1 \<in> fst ` set ?acks" unfolding cbs by auto
        then show ?thesis unfolding keys by blast
      qed
    qed
    ultimately show ?thesis unfolding round_keys_def by blast
  qed
qed

lemma round_keys_accepted:
  assumes inv: "round_keys st pending"
    and cb: "Receive_accepted c e \<in> set pending"
    and ra: "receive_accepted c e cmd st = Inr (st1, acts)"
  shows "round_keys st1 (remove1 (Receive_accepted c e) pending @ callbacks acts)"
proof -
  from inv have sa: "sorted_wrt (<) (map fst (accepted st))"
    and sr: "sorted_wrt (<) (map fst (responses st))"
    and sub: "fst ` set (responses st) \<subseteq> fst ` set (accepted st)"
    by (simp_all add: round_keys_def)
  from receive_accepted_Inr(2,3) [OF ra]
  have acc: "accepted st1 = accepted st"
    and res: "responses st1 = map_set (responses st) e (workload cmd)"
    and cbs: "callbacks acts = []"
    by simp_all
  from inv cb have e: "e \<in> fst ` set (accepted st)" by (rule round_keys_pending)
  have "sorted_wrt (<) (map fst (accepted st1))"
    by (simp add: acc sa)
  moreover have "sorted_wrt (<) (map fst (responses st1))"
    by (simp add: res sr sorted_map_set)
  moreover have "fst ` set (responses st1) \<subseteq> fst ` set (accepted st1)"
    using sub e unfolding acc res keys_map_set by blast
  moreover have "\<forall>c1 e1. Receive_accepted c1 e1
              \<in> set (remove1 (Receive_accepted c e) pending @ callbacks acts)
            \<longrightarrow> e1 \<in> fst ` set (accepted st1)"
  proof (intro allI impI)
    fix c1 e1
    assume "Receive_accepted c1 e1 \<in> set (remove1 (Receive_accepted c e) pending @ callbacks acts)"
    then have "Receive_accepted c1 e1 \<in> set pending"
      using set_remove1_subset [of "Receive_accepted c e" pending] by (auto simp: cbs)
    with inv show "e1 \<in> fst ` set (accepted st1)"
      unfolding acc by (rule round_keys_pending)
  qed
  ultimately show ?thesis unfolding round_keys_def by blast
qed

lemma round_reachable_keys: "round_reachable h st pending \<Longrightarrow> round_keys st pending"
proof (induction rule: round_reachable.induct)
  case (started n client_connection cmd n1 st acts)
  then show ?case by (rule start_keys)
next
  case (promise st pending client_connection e server_connection byte_array n cmd st1 acts)
  from promise.IH promise.hyps(3) show ?case by (rule round_keys_promise)
next
  case (accepted st pending client_connection e cmd st1 acts)
  from accepted.IH accepted.hyps(2,3) show ?case by (rule round_keys_accepted)
qed

lemma round_reachable_incomplete:
  assumes "round_reachable h st pending" and "Receive_accepted c e \<in> set pending"
    and "map_of (responses st) e = None"
  shows "length (responses st) < length (accepted st)"
proof -
  from assms(1) have inv: "round_keys st pending" by (rule round_reachable_keys)
  then have sa: "sorted_wrt (<) (map fst (accepted st))"
    and sr: "sorted_wrt (<) (map fst (responses st))"
    and sub: "fst ` set (responses st) \<subseteq> fst ` set (accepted st)"
    by (simp_all add: round_keys_def)
  from inv assms(2) have "e \<in> fst ` set (accepted st)" by (rule round_keys_pending)
  moreover from assms(3) have "e \<notin> fst ` set (responses st)" by (simp add: map_of_None_keys)
  ultimately have "fst ` set (responses st) \<subset> fst ` set (accepted st)"
    using sub by blast
  then have "card (fst ` set (responses st)) < card (fst ` set (accepted st))"
    by (simp add: psubset_card_mono)
  then show ?thesis by (simp add: sorted_keys_length [OF sa] sorted_keys_length [OF sr])
qed

text \<open>
  What a fail reply does, for every round, and what the leader records for itself
  when the accept phase begins.
\<close>

lemma processed_append: "processed (xs @ ys) = processed xs @ processed ys"
  by (induction xs rule: processed.induct) simp_all

lemma send_accept_loop_processed:
  "send_accept_loop n client_connection byte_array ls st = Inr acts \<Longrightarrow> processed acts = []"
proof (induction ls arbitrary: acts)
  case Nil
  then show ?case by simp
next
  case (Cons i rest)
  from Cons.prems obtain r acts1 acts2 where
    "lookup (m_quorum n) (fst i) = Inr r"
    and s: "send_accept client_connection (fst i) (rs_connection r) byte_array st = Inr acts1"
    and l: "send_accept_loop n client_connection byte_array rest st = Inr acts2"
    and a: "acts = acts1 @ acts2"
    by (auto split: sum.splits)
  from send_accept_Inr(2) [OF s] Cons.IH [OF l] a show ?case
    by (simp add: processed_append)
qed

lemma receive_promise_fail:
  assumes "we_are_the_leader (m_quorum n)" and "type cmd = type_request_fail"
  shows "receive_promise h n client_connection e server_connection byte_array cmd st
           = Inr (st\<lparr>accepted := map_set (accepted st) e response_reject\<rparr>, [])"
  using assms not_everyone_promised_reject [of "accepted st" e]
  by (simp add: receive_promise_def PAXOS_ASSERT_def promise_response_def)

lemma receive_promise_self_accept:
  assumes "receive_promise h n client_connection e server_connection byte_array cmd st
             = Inr (st1, acts)"
    and "acts \<noteq> []"
  shows "processed acts = [workload cmd]
         \<and> responses st1
             = map_set (responses st) (self_endpoint (self (m_quorum n))) (h (workload cmd))
         \<and> map_of (accepted st1) (self_endpoint (self (m_quorum n))) = Some response_ack"
  using assms(1)
proof (cases rule: receive_promise_cases)
  case (stall r)
  with assms(2) show ?thesis by simp
next
  case (accept r acts1 acts2)
  note ra = receive_accepted_Inr [OF accept(4)]
  from ra(3) have "processed acts2 = []" by simp
  with accept(5) send_accept_loop_processed [OF accept(3)]
  have "processed acts = [workload cmd]" by (simp add: processed_append)
  moreover from ra(2) have "responses st1
           = map_set (responses st) (self_endpoint (self (m_quorum n))) (h (workload cmd))"
    by simp
  moreover from ra(2)
  have "map_of (accepted st1) (self_endpoint (self (m_quorum n))) = Some response_ack"
    by (simp add: map_of_map_set)
  ultimately show ?thesis by blast
qed

section \<open>Leader rounds: an example round and the claims\<close>

lemma start_example:
  "start leader_example (Some 9) request_example
     = Inr (leader_example\<lparr>m_proposal_id := 1\<rparr>, preparing_example,
            [Write_command ((new_command type_request_prepare)\<lparr>proposal_id := 1\<rparr>) (Some 1),
             Read_command (Some 1) (Receive_promise (Some 9) (localhost, 1338) (Some 1) ''abc''),
             Write_command ((new_command type_request_prepare)\<lparr>proposal_id := 1\<rparr>) (Some 2),
             Read_command (Some 2) (Receive_promise (Some 9) (localhost, 1339) (Some 2) ''abc'')])"
  by (simp add: round_defs round_example_defs)

lemma first_promise_example:
  "receive_promise echo leader_example (Some 9) (localhost, 1338) (Some 1) ''abc''
     (new_command type_request_promise) preparing_example
     = Inr (one_promised_example, [])"
  by (simp add: round_defs round_example_defs)

lemma second_promise_example:
  "receive_promise echo leader_example (Some 9) (localhost, 1339) (Some 2) ''abc''
     (new_command type_request_promise) one_promised_example
     = Inr (accepting_example,
            [Write_command ((new_command type_request_accept)\<lparr>workload := ''abc''\<rparr>) (Some 1),
             Read_command (Some 1) (Receive_accepted (Some 9) (localhost, 1338)),
             Write_command ((new_command type_request_accept)\<lparr>workload := ''abc''\<rparr>) (Some 2),
             Read_command (Some 2) (Receive_accepted (Some 9) (localhost, 1339)),
             Process_workload []])"
  by (simp add: round_defs round_example_defs)

lemma first_accepted_example:
  "receive_accepted (Some 9) (localhost, 1338) (accepted_reply ''abc'') accepting_example
     = Inr (collecting_example, [])"
  by (simp add: round_defs round_example_defs)

lemma reachable_preparing:
  "round_reachable echo preparing_example
     [Receive_promise (Some 9) (localhost, 1338) (Some 1) ''abc'',
      Receive_promise (Some 9) (localhost, 1339) (Some 2) ''abc'']"
  using round_reachable.started [OF start_example, of echo] by simp

lemma reachable_one_promised:
  "round_reachable echo one_promised_example
     [Receive_promise (Some 9) (localhost, 1339) (Some 2) ''abc'']"
  using round_reachable.promise [OF reachable_preparing _ first_promise_example] by simp

lemma reachable_accepting:
  "round_reachable echo accepting_example
     [Receive_accepted (Some 9) (localhost, 1338), Receive_accepted (Some 9) (localhost, 1339)]"
  using round_reachable.promise [OF reachable_one_promised _ second_promise_example] by simp

lemma reachable_collecting:
  "round_reachable echo collecting_example [Receive_accepted (Some 9) (localhost, 1339)]"
  using round_reachable.accepted [OF reachable_accepting _ first_accepted_example] by simp


lemma send_accept_loop_length:
  "send_accept_loop n client_connection byte_array ls st = Inr acts
   \<Longrightarrow> length (accept_writes acts) = length ls"
proof (induction ls arbitrary: acts)
  case Nil
  then show ?case by (simp add: accept_writes_def)
next
  case (Cons i rest)
  from Cons.prems obtain r acts1 acts2 where
    "lookup (m_quorum n) (fst i) = Inr r"
    and s: "send_accept client_connection (fst i) (rs_connection r) byte_array st = Inr acts1"
    and l: "send_accept_loop n client_connection byte_array rest st = Inr acts2"
    and a: "acts = acts1 @ acts2"
    by (auto split: sum.splits)
  from send_accept_Inr(2) [OF s] have "length (accept_writes acts1) = 1"
    by (simp add: accept_writes_def new_command_def)
  with Cons.IH [OF l] a show ?case by (simp add: accept_writes_append)
qed

lemma accept_writes_self:
  assumes "receive_accepted client_connection e
             ((new_command type_request_accepted)\<lparr>workload := w\<rparr>) st = Inr (st1, acts2)"
  shows "accept_writes ([Process_workload v] @ acts2) = []"
  using receive_accepted_Inr(3) [OF assms] by (simp add: accept_writes_def new_command_def)

text \<open>
  C1: when \<open>receive_promise\<close> returns, the reply has been recorded in the acks map
  and all entries have been evaluated. Accept commands are among the actions only if
  every entry is promised; if some entry is not, the handler does nothing more. If
  every entry is promised, one accept command is written per entry, and every accept
  command carries the request payload and goes to the cached connection of a peer
  whose entry is promised.
\<close>

theorem accept_requires_all_promised:
  assumes "receive_promise h n client_connection e server_connection byte_array cmd st
             = Inr (st1, acts)"
  shows "\<exists>r. promise_response cmd = Inr r
           \<and> (accept_writes acts \<noteq> [] \<longrightarrow>
                (\<forall>i\<in>set (map_set (accepted st) e r). snd i = response_ack))
           \<and> ((\<exists>i\<in>set (map_set (accepted st) e r). snd i \<noteq> response_ack) \<longrightarrow> acts = [])
           \<and> ((\<forall>i\<in>set (map_set (accepted st) e r). snd i = response_ack) \<longrightarrow>
                length (accept_writes acts) = length (map_set (accepted st) e r))
           \<and> (\<forall>w\<in>set (accept_writes acts).
                \<exists>e1 r1. map_of (map_set (accepted st) e r) e1 = Some response_ack
                  \<and> lookup (m_quorum n) e1 = Inr r1 \<and> snd w = rs_connection r1
                  \<and> fst w = (new_command type_request_accept)\<lparr>workload := byte_array\<rparr>)"
  using assms
proof (cases rule: receive_promise_cases)
  case (stall r)
  from stall(2) have "\<exists>i\<in>set (map_set (accepted st) e r). snd i \<noteq> response_ack"
    by (simp add: everyone_promised_iff list_all_iff)
  moreover from stall(4) have "acts = []" and "accept_writes acts = []"
    by (simp_all add: accept_writes_def)
  ultimately show ?thesis using stall(1) by auto
next
  case (accept r acts1 acts2)
  let ?acks = "map_set (accepted st) e r"
  from accept(2) have all: "\<forall>i\<in>set ?acks. snd i = response_ack"
    by (simp add: everyone_promised_iff list_all_iff)
  from accept(5) accept_writes_self [OF accept(4)]
  have aw: "accept_writes acts = accept_writes acts1"
    by (simp add: accept_writes_append)
  from send_accept_loop_length [OF accept(3)] aw
  have len: "length (accept_writes acts) = length ?acks" by simp
  have "\<exists>e1 r1. map_of ?acks e1 = Some response_ack
          \<and> lookup (m_quorum n) e1 = Inr r1 \<and> snd w = rs_connection r1
          \<and> fst w = (new_command type_request_accept)\<lparr>workload := byte_array\<rparr>"
    if "w \<in> set (accept_writes acts)" for w
  proof -
    from that aw have "(fst w, snd w) \<in> set (accept_writes acts1)" by simp
    from send_accept_loop_writes [OF accept(3) this]
    obtain i :: "endpoint \<times> response" and r1
      where "map_of ?acks (fst i) = Some response_ack"
      and "lookup (m_quorum n) (fst i) = Inr r1" and "snd w = rs_connection r1"
      and "fst w = (new_command type_request_accept)\<lparr>workload := byte_array\<rparr>"
      by auto
    then show ?thesis by (intro exI [of _ "fst i"] exI [of _ r1] conjI)
  qed
  with accept(1) all len show ?thesis by blast
qed

theorem accept_requires_all_promised_witness:
  "receive_promise echo leader_example (Some 9) (localhost, 1339) (Some 2) ''abc''
     (new_command type_request_promise) one_promised_example
     = Inr (accepting_example,
            [Write_command ((new_command type_request_accept)\<lparr>workload := ''abc''\<rparr>) (Some 1),
             Read_command (Some 1) (Receive_accepted (Some 9) (localhost, 1338)),
             Write_command ((new_command type_request_accept)\<lparr>workload := ''abc''\<rparr>) (Some 2),
             Read_command (Some 2) (Receive_accepted (Some 9) (localhost, 1339)),
             Process_workload []])
   \<and> map_set (accepted one_promised_example) (localhost, 1339) response_ack
       = [((localhost, 1338), response_ack), ((localhost, 1339), response_ack)]"
  using accept_requires_all_promised [OF second_promise_example] second_promise_example
  by (simp add: one_promised_example_def localhost_def)

text \<open>
  C4: a fail reply from the peer at port 1338 is recorded as \<open>response_reject\<close> and
  nothing else happens: no command is written, on the client connection or anywhere
  else. The promise of the other peer that follows is recorded and again nothing is
  written, so the client never hears of the round again.
\<close>

theorem fail_reply_not_surfaced:
  "receive_promise echo leader_example (Some 9) (localhost, 1338) (Some 1) ''abc''
     (new_command type_request_fail) preparing_example
     = Inr (\<lparr>accepted = [((localhost, 1338), response_reject), ((localhost, 1339), response_none)],
             responses = []\<rparr>, [])
   \<and> receive_promise echo leader_example (Some 9) (localhost, 1339) (Some 2) ''abc''
       (new_command type_request_promise)
       \<lparr>accepted = [((localhost, 1338), response_reject), ((localhost, 1339), response_none)],
        responses = []\<rparr>
     = Inr (\<lparr>accepted = [((localhost, 1338), response_reject), ((localhost, 1339), response_ack)],
             responses = []\<rparr>, [])"
  by (simp add: round_defs round_example_defs)

text \<open>
  C6: the peer at port 1338 has answered \<open>abc\<close>; the accepted reply of the peer at
  port 1339 carries \<open>xyz\<close>. The responses are compared with nothing: the round
  completes and the reply \<open>xyz\<close> is written to the client as a normal accepted reply.
\<close>

theorem inconsistent_responses_accepted:
  "receive_accepted (Some 9) (localhost, 1339) (accepted_reply ''xyz'') collecting_example
     = Inr (\<lparr>accepted = [((localhost, 1337), response_ack), ((localhost, 1338), response_ack),
                          ((localhost, 1339), response_ack)],
             responses = [((localhost, 1337), []), ((localhost, 1338), ''abc''),
                          ((localhost, 1339), ''xyz'')]\<rparr>,
            [Write_command (accepted_reply ''xyz'') (Some 9)])"
  by (simp add: round_defs round_example_defs)

text \<open>
  C8: the request payload is \<open>abc\<close> and the last promise arrives. The leader sends
  the accept commands with the payload \<open>abc\<close>, but runs the handler on the workload of
  the promise it has just received, which is empty, and records the result of that
  under its own endpoint: the handler is never run on \<open>abc\<close> here.
\<close>

theorem self_accept_wrong_workload:
  "receive_promise echo leader_example (Some 9) (localhost, 1339) (Some 2) ''abc''
     (new_command type_request_promise) one_promised_example
     = Inr (\<lparr>accepted = [((localhost, 1337), response_ack), ((localhost, 1338), response_ack),
                          ((localhost, 1339), response_ack)],
             responses = [((localhost, 1337), echo [])]\<rparr>,
            [Write_command ((new_command type_request_accept)\<lparr>workload := ''abc''\<rparr>) (Some 1),
             Read_command (Some 1) (Receive_accepted (Some 9) (localhost, 1338)),
             Write_command ((new_command type_request_accept)\<lparr>workload := ''abc''\<rparr>) (Some 2),
             Read_command (Some 2) (Receive_accepted (Some 9) (localhost, 1339)),
             Process_workload []])
   \<and> echo [] \<noteq> echo ''abc''"
  by (simp add: round_defs round_example_defs)


lemma second_accepted_example:
  "receive_accepted (Some 9) (localhost, 1339) (accepted_reply ''abc'') collecting_example
     = Inr (completed_example, [Write_command (accepted_reply ''abc'') (Some 9)])"
  by (simp add: round_defs round_example_defs)

text \<open>
  C7: in every leader round, when an awaited accepted reply from endpoint \<open>e\<close> is
  handled, \<open>e\<close> has no response yet and fewer responses than promised entries have
  been recorded; the reply adds exactly one response, the payload of the reply under
  \<open>e\<close>, and leaves the acks alone. The round completes exactly when the number of
  responses then equals the number of promised entries: in that case the only action
  is to write the command just received, with its payload, on the client connection,
  and otherwise there is no action. A further reply from \<open>e\<close> would fail the
  assertion, so no endpoint ever has two responses.
\<close>

theorem response_collection:
  assumes "round_reachable h st pending"
    and "Receive_accepted client_connection e \<in> set pending"
    and "receive_accepted client_connection e cmd st = Inr (st1, acts)"
  shows "map_of (responses st) e = None
         \<and> length (responses st) < promised (accepted st)
         \<and> responses st1 = map_set (responses st) e (workload cmd)
         \<and> map_of (responses st1) e = Some (workload cmd)
         \<and> length (responses st1) = Suc (length (responses st))
         \<and> accepted st1 = accepted st
         \<and> acts = (if length (responses st1) = promised (accepted st1)
                    then [Write_command cmd client_connection] else [])
         \<and> receive_accepted client_connection e cmd2 st1 = Inl Assertion_failed"
proof -
  note ra = receive_accepted_Inr [OF assms(3)]
  from assms(1,2) have ep: "everyone_promised (accepted st)"
    by (rule round_reachable_accept_phase)
  then have pr: "promised (accepted st) = length (accepted st)"
    by (rule promised_everyone)
  from round_reachable_incomplete [OF assms(1,2) ra(1)] pr
  have lt: "length (responses st) < promised (accepted st)" by simp
  from ra(2) have res: "responses st1 = map_set (responses st) e (workload cmd)"
    and acc: "accepted st1 = accepted st" by simp_all
  from res have m: "map_of (responses st1) e = Some (workload cmd)"
    by (simp add: map_of_map_set)
  from res ra(1) have len: "length (responses st1) = Suc (length (responses st))"
    by (simp add: length_map_set_fresh)
  from ra(3) len acc pr
  have a: "acts = (if length (responses st1) = promised (accepted st1)
                   then [Write_command cmd client_connection] else [])"
    by simp
  from m have "receive_accepted client_connection e cmd2 st1 = Inl Assertion_failed"
    by (simp add: receive_accepted_def PAXOS_ASSERT_def)
  with ra(1) lt res m len acc a show ?thesis by blast
qed

theorem response_collection_witness:
  "round_reachable echo collecting_example [Receive_accepted (Some 9) (localhost, 1339)]
   \<and> receive_accepted (Some 9) (localhost, 1339) (accepted_reply ''abc'') collecting_example
       = Inr (completed_example, [Write_command (accepted_reply ''abc'') (Some 9)])
   \<and> length (responses collecting_example) = 2
   \<and> promised (accepted collecting_example) = 3
   \<and> length (responses completed_example) = promised (accepted completed_example)
   \<and> receive_accepted (Some 9) (localhost, 1339) (accepted_reply ''abc'') completed_example
       = Inl Assertion_failed"
  using response_collection [OF reachable_collecting _ second_accepted_example,
      of "accepted_reply ''abc''"]
    reachable_collecting second_accepted_example
  by (simp add: promised_def collecting_example_def completed_example_def)

end
